theory Spec2Isabelle
  imports Main "HOL-Library.Product_Lexorder"
begin

section \<open>Values held by the conversation cache\<close>

text \<open>
  The development embeds \<^verbatim>\<open>ols/src/cache/postgres_cache_.py\<close> (class
  \<^verbatim>\<open>PostgresCache\<close>) and the interface of
  \<^verbatim>\<open>ols/src/quota/quota_limiter.py\<close>. Python exceptions are values of
  the type \<open>error\<close>; every method returns its result together with the object it
  leaves behind, because a statement that has been executed stays executed when a later
  line raises (the connection runs with \<^verbatim>\<open>autocommit = True\<close>). The decorator
  \<^verbatim>\<open>connection\<close> of the public methods is defined outside the sources; each
  method is embedded as its body.
\<close>

type_synonym timestamp = int

datatype role = Human | Assistant

text \<open>
  Modelled from the spec: the class \<^verbatim>\<open>CacheEntry\<close> (module
  \<^verbatim>\<open>ols.app.models.models\<close>) is not among the sources. The spec describes it as
  one conversational turn: a role/kind discriminator (human or assistant) and opaque
  textual content.
\<close>

record CacheEntry =
  kind :: role
  content :: string

text \<open>
  The Python values that \<^verbatim>\<open>json.loads\<close> can hand to the cache. \<open>PyEntry e\<close> is
  the dict that \<^verbatim>\<open>CacheEntry.to_dict\<close> produces for the entry \<open>e\<close>; \<open>PyDict\<close>
  is any other dict.
\<close>

datatype pyvalue =
    PyNone
  | PyBool bool
  | PyInt int
  | PyStr string
  | PyList "pyvalue list"
  | PyEntry CacheEntry
  | PyDict "(string \<times> pyvalue) list"

text \<open>Truth value testing, as in \<^verbatim>\<open>if old_value:\<close>.\<close>

fun truthy :: "pyvalue \<Rightarrow> bool" where
  "truthy PyNone = False"
| "truthy (PyBool b) = b"
| "truthy (PyInt n) = (n \<noteq> 0)"
| "truthy (PyStr s) = (s \<noteq> [])"
| "truthy (PyList xs) = (xs \<noteq> [])"
| "truthy (PyEntry e) = True"
| "truthy (PyDict kvs) = (kvs \<noteq> [])"

text \<open>
  The exceptions: the subclasses of \<^verbatim>\<open>psycopg2.DatabaseError\<close> that the server
  or the cursor can raise, and the Python exceptions of the cache. \<open>DatabaseError d\<close>
  is a database error that has not been caught; \<open>CacheError name d\<close> is
  \<^verbatim>\<open>CacheError(name, d)\<close>.
\<close>

datatype dberror = OperationalError | IntegrityError | ProgrammingError | DataError

datatype error =
    InvalidIdentifier string
  | CacheError string dberror
  | DatabaseError dberror
  | ValueError
  | TypeError
  | AttributeError
  | IndexError

text \<open>
  Modelled from the spec: \<^verbatim>\<open>CacheEntry.to_dict\<close> and
  \<^verbatim>\<open>CacheEntry.from_dict\<close> are not among the sources. The spec requires the
  encoding of an entry to be lossless, so \<open>from_dict\<close> inverts \<open>to_dict\<close>; on anything
  that \<open>to_dict\<close> does not produce it raises.
\<close>

definition to_dict :: "CacheEntry \<Rightarrow> pyvalue" where
  "to_dict e = PyEntry e"

fun from_dict :: "pyvalue \<Rightarrow> error + CacheEntry" where
  "from_dict (PyEntry e) = Inr e"
| "from_dict (PyDict kvs) = Inl ValueError"
| "from_dict v = Inl TypeError"

text \<open>
  Modelled from the spec: \<^verbatim>\<open>MessageEncoder\<close> and \<^verbatim>\<open>MessageDecoder\<close> are
  not among the sources, and the spec requires encode followed by decode to be lossless.
  The content of a \<^verbatim>\<open>bytea\<close> column is therefore either \<open>Utf8Json v\<close>, the byte
  string \<^verbatim>\<open>json.dumps(v, cls=MessageEncoder).encode("utf-8")\<close>, which decodes to
  \<open>v\<close> again, or \<open>Bytes bs\<close>, a byte string that is not the UTF-8 JSON text of any
  value.
\<close>

datatype bytea = Utf8Json pyvalue | Bytes "nat list"

definition dumps :: "pyvalue \<Rightarrow> bytea" where
  "dumps v = Utf8Json v"

text \<open>A field of a fetched row, as psycopg2 hands it to Python.\<close>

datatype cell = SqlNull | SqlText string | SqlBytea bytea | SqlBigint int

text \<open>
  \<^verbatim>\<open>json.loads(str(value[0], "utf-8"), cls=MessageDecoder)\<close>: \<^verbatim>\<open>str\<close> raises
  TypeError on anything but bytes, and both UnicodeDecodeError and JSONDecodeError are
  ValueErrors.
\<close>

fun loads :: "cell \<Rightarrow> error + pyvalue" where
  "loads (SqlBytea (Utf8Json v)) = Inr v"
| "loads (SqlBytea (Bytes bs)) = Inl ValueError"
| "loads c = Inl TypeError"

section \<open>The table and the statements\<close>

record row =
  user_id :: string
  conversation_id :: string
  value_col :: "bytea option"
  topic_summary :: "string option"
  updated_at :: "timestamp option"

text \<open>
  The connection together with the server behind it: the table \<^verbatim>\<open>cache\<close>, the
  value of \<^verbatim>\<open>CURRENT_TIMESTAMP\<close>, the failure (if any) with which the server answers
  the next statement, the answers it gives to the statements after that one (when the
  list is used up, the last condition stays), and the number of statements sent so far.
  The connection runs with \<^verbatim>\<open>autocommit = True\<close>: what a statement has done to
  the table stays when a later statement fails.
\<close>

record pg_connection =
  cache :: "row list"
  now :: timestamp
  fault :: "dberror option"
  later :: "dberror option list"
  executed :: nat

datatype statement =
    SELECT_CONVERSATION_HISTORY_STATEMENT string string
  | UPDATE_CONVERSATION_HISTORY_STATEMENT bytea string string
  | INSERT_CONVERSATION_HISTORY_STATEMENT string string bytea string
  | DELETE_CONVERSATION_HISTORY_STATEMENT int
  | QUERY_CACHE_SIZE
  | DELETE_SINGLE_CONVERSATION_STATEMENT string string
  | LIST_CONVERSATIONS_STATEMENT string

definition pkey :: "row \<Rightarrow> string \<times> string" where
  "pkey r = (user_id r, conversation_id r)"

text \<open>
  \<^verbatim>\<open>ORDER BY updated_at\<close> sorts ascending with NULLs last, and
  \<^verbatim>\<open>ORDER BY updated_at DESC\<close> descending with NULLs first. Rows with equal
  timestamps keep the order of the table (the spec: ties are broken by the store's
  stable sort).
\<close>

definition asc_key :: "row \<Rightarrow> nat \<times> int" where
  "asc_key r = (case updated_at r of None \<Rightarrow> (1, 0) | Some t \<Rightarrow> (0, t))"

definition desc_key :: "row \<Rightarrow> nat \<times> int" where
  "desc_key r = (case updated_at r of None \<Rightarrow> (0, 0) | Some t \<Rightarrow> (1, - t))"

definition oldest :: "nat \<Rightarrow> row list \<Rightarrow> row list" where
  "oldest n rows = take n (sort_key asc_key rows)"

text \<open>The \<^verbatim>\<open>value\<close> column of a row as it is fetched.\<close>

definition cell_of :: "row \<Rightarrow> cell" where
  "cell_of r = (case value_col r of None \<Rightarrow> SqlNull | Some b \<Rightarrow> SqlBytea b)"

text \<open>
  What a statement does to the table at time \<open>t\<close>, and the result set it leaves in the
  cursor (\<open>None\<close> for a statement that returns no rows at all, such as an INSERT, an
  UPDATE or a DELETE without RETURNING). The argument of LIMIT is a \<^verbatim>\<open>bigint\<close>: the
  server refuses a negative one and one beyond \<open>2\<^sup>6\<^sup>3 - 1\<close>.
\<close>

definition bigint_max :: int where
  "bigint_max = 9223372036854775807"

fun sql :: "statement \<Rightarrow> timestamp \<Rightarrow> row list \<Rightarrow> dberror + (row list \<times> cell list list option)" where
  "sql (SELECT_CONVERSATION_HISTORY_STATEMENT u c) t rows =
     Inr (rows, Some (take 1 (map (\<lambda>r. [cell_of r]) (filter (\<lambda>r. pkey r = (u, c)) rows))))"
| "sql (UPDATE_CONVERSATION_HISTORY_STATEMENT b u c) t rows =
     Inr (map (\<lambda>r. if pkey r = (u, c) then r\<lparr>value_col := Some b, updated_at := Some t\<rparr> else r) rows,
          None)"
| "sql (INSERT_CONVERSATION_HISTORY_STATEMENT u c b s) t rows =
     (if (u, c) \<in> set (map pkey rows) then Inl IntegrityError
      else Inr (rows @ [\<lparr>user_id = u, conversation_id = c, value_col = Some b,
                         topic_summary = Some s, updated_at = Some t\<rparr>], None))"
| "sql (DELETE_CONVERSATION_HISTORY_STATEMENT n) t rows =
     (if n < 0 \<or> bigint_max < n then Inl DataError
      else Inr (filter (\<lambda>r. pkey r \<notin> set (map pkey (oldest (nat n) rows))) rows, None))"
| "sql QUERY_CACHE_SIZE t rows = Inr (rows, Some [[SqlBigint (int (length rows))]])"
| "sql (DELETE_SINGLE_CONVERSATION_STATEMENT u c) t rows =
     Inr (filter (\<lambda>r. pkey r \<noteq> (u, c)) rows, None)"
| "sql (LIST_CONVERSATIONS_STATEMENT u) t rows =
     Inr (rows, Some (map (\<lambda>r. [SqlText (conversation_id r),
                                 case topic_summary r of None \<Rightarrow> SqlNull | Some s \<Rightarrow> SqlText s])
                          (sort_key desc_key (filter (\<lambda>r. user_id r = u) rows))))"

text \<open>
  The strings that a statement passes as parameters. psycopg2 refuses a string that holds
  a NUL character with a ValueError while it builds the statement, before anything is
  sent; a byte string is passed as binary and may hold any byte.
\<close>

fun text_parameters :: "statement \<Rightarrow> string list" where
  "text_parameters (SELECT_CONVERSATION_HISTORY_STATEMENT u c) = [u, c]"
| "text_parameters (UPDATE_CONVERSATION_HISTORY_STATEMENT b u c) = [u, c]"
| "text_parameters (INSERT_CONVERSATION_HISTORY_STATEMENT u c b s) = [u, c, s]"
| "text_parameters (DELETE_CONVERSATION_HISTORY_STATEMENT n) = []"
| "text_parameters QUERY_CACHE_SIZE = []"
| "text_parameters (DELETE_SINGLE_CONVERSATION_STATEMENT u c) = [u, c]"
| "text_parameters (LIST_CONVERSATIONS_STATEMENT u) = [u]"

definition sendable :: "string \<Rightarrow> bool" where
  "sendable s = (CHR 0x00 \<notin> set s)"

text \<open>The connection after one statement has been sent and answered.\<close>

definition sent :: "pg_connection \<Rightarrow> pg_connection" where
  "sent cursor =
     cursor\<lparr>executed := Suc (executed cursor),
            fault := (case later cursor of [] \<Rightarrow> fault cursor | f # fs \<Rightarrow> f),
            later := tl (later cursor)\<rparr>"

text \<open>
  \<^verbatim>\<open>cursor.execute\<close>: the parameters are checked, the statement is sent, and the
  server either answers with its failure or runs the statement.
\<close>

definition execute :: "pg_connection \<Rightarrow> statement \<Rightarrow> (error + cell list list option) \<times> pg_connection" where
  "execute cursor stmt =
     (if \<not> list_all sendable (text_parameters stmt) then (Inl ValueError, cursor)
      else
        (case fault cursor of
           Some e \<Rightarrow> (Inl (DatabaseError e), sent cursor)
         | None \<Rightarrow>
             (case sql stmt (now cursor) (cache cursor) of
                Inl e \<Rightarrow> (Inl (DatabaseError e), sent cursor)
              | Inr (rows, rs) \<Rightarrow> (Inr rs, (sent cursor)\<lparr>cache := rows\<rparr>))))"

text \<open>The server answers the next \<open>n\<close> statements.\<close>

fun answers_next :: "nat \<Rightarrow> pg_connection \<Rightarrow> bool" where
  "answers_next 0 cursor = True"
| "answers_next (Suc n) cursor = (fault cursor = None \<and> answers_next n (sent cursor))"

text \<open>
  \<^verbatim>\<open>cursor.fetchone\<close> and \<^verbatim>\<open>cursor.fetchall\<close>: psycopg2 raises
  ProgrammingError ("no results to fetch") when the last statement produced no result
  set; on an exhausted result set \<^verbatim>\<open>fetchone\<close> returns \<^verbatim>\<open>None\<close>.
\<close>

fun fetchone :: "cell list list option \<Rightarrow> dberror + cell list option" where
  "fetchone None = Inl ProgrammingError"
| "fetchone (Some []) = Inr None"
| "fetchone (Some (r # rs)) = Inr (Some r)"

fun fetchall :: "cell list list option \<Rightarrow> dberror + cell list list" where
  "fetchall None = Inl ProgrammingError"
| "fetchall (Some rs) = Inr rs"

section \<open>The cache\<close>

record PostgresCache =
  capacity :: int
  connection :: pg_connection

text \<open>
  Modelled from the spec: \<^verbatim>\<open>Cache.construct_key\<close> and the check of the identifier
  format are in the base class \<^verbatim>\<open>ols.src.cache.cache.Cache\<close>, which is not among the
  sources. The spec: both \<^verbatim>\<open>user_id\<close> and \<^verbatim>\<open>conversation_id\<close> are validated
  as canonical UUID-format strings unless \<^verbatim>\<open>skip_user_id_check\<close> is set, and a
  failure is an InvalidIdentifier error.
\<close>

definition is_hex :: "char \<Rightarrow> bool" where
  "is_hex ch = (ch \<in> set ''0123456789abcdefABCDEF'')"

definition check_suid :: "string \<Rightarrow> bool" where
  "check_suid s =
     (length s = 36 \<and>
      list_all (\<lambda>(i, ch). if i \<in> {8, 13, 18, 23} then ch = CHR ''-'' else is_hex ch)
               (enumerate 0 s))"

definition construct_key :: "string \<Rightarrow> string \<Rightarrow> bool \<Rightarrow> error + unit" where
  "construct_key uid cid skip_user_id_check =
     (if skip_user_id_check then Inr ()
      else if \<not> check_suid uid then Inl (InvalidIdentifier uid)
      else if \<not> check_suid cid then Inl (InvalidIdentifier cid)
      else Inr ())"

text \<open>
  The clause \<^verbatim>\<open>except psycopg2.DatabaseError as e: raise CacheError(name, e) from e\<close>:
  a database error is wrapped, every other exception passes through.
\<close>

fun wrap :: "string \<Rightarrow> error \<Rightarrow> error" where
  "wrap name (DatabaseError e) = CacheError name e"
| "wrap name e = e"

text \<open>The static methods \<^verbatim>\<open>_select\<close>, \<^verbatim>\<open>_update\<close>, \<^verbatim>\<open>_insert\<close>,
  \<^verbatim>\<open>_cleanup\<close> and \<^verbatim>\<open>_delete\<close> (an Isabelle name cannot start with an underscore).\<close>

definition PostgresCache_select :: "pg_connection \<Rightarrow> string \<Rightarrow> string \<Rightarrow> (error + pyvalue) \<times> pg_connection" where
  "PostgresCache_select cursor uid cid =
     (case execute cursor (SELECT_CONVERSATION_HISTORY_STATEMENT uid cid) of
        (Inl e, cursor1) \<Rightarrow> (Inl e, cursor1)
      | (Inr rs, cursor1) \<Rightarrow>
          (case fetchone rs of
             Inl e \<Rightarrow> (Inl (DatabaseError e), cursor1)
           | Inr None \<Rightarrow> (Inr PyNone, cursor1)
           | Inr (Some v) \<Rightarrow>
               if length v \<noteq> 1 then (Inl ValueError, cursor1)
               else (case loads (hd v) of
                       Inl e \<Rightarrow> (Inl e, cursor1)
                     | Inr deserialized \<Rightarrow> (Inr deserialized, cursor1))))"

definition PostgresCache_update :: "pg_connection \<Rightarrow> string \<Rightarrow> string \<Rightarrow> bytea \<Rightarrow> (error + unit) \<times> pg_connection" where
  "PostgresCache_update cursor uid cid b =
     (case execute cursor (UPDATE_CONVERSATION_HISTORY_STATEMENT b uid cid) of
        (Inl e, cursor1) \<Rightarrow> (Inl e, cursor1)
      | (Inr rs, cursor1) \<Rightarrow> (Inr (), cursor1))"

definition PostgresCache_insert :: "pg_connection \<Rightarrow> string \<Rightarrow> string \<Rightarrow> bytea \<Rightarrow> string \<Rightarrow> (error + unit) \<times> pg_connection" where
  "PostgresCache_insert cursor uid cid b summary =
     (case execute cursor (INSERT_CONVERSATION_HISTORY_STATEMENT uid cid b summary) of
        (Inl e, cursor1) \<Rightarrow> (Inl e, cursor1)
      | (Inr rs, cursor1) \<Rightarrow> (Inr (), cursor1))"

definition PostgresCache_cleanup :: "pg_connection \<Rightarrow> int \<Rightarrow> (error + unit) \<times> pg_connection" where
  "PostgresCache_cleanup cursor cap =
     (case execute cursor QUERY_CACHE_SIZE of
        (Inl e, cursor1) \<Rightarrow> (Inl e, cursor1)
      | (Inr rs, cursor1) \<Rightarrow>
          (case fetchone rs of
             Inl e \<Rightarrow> (Inl (DatabaseError e), cursor1)
           | Inr None \<Rightarrow> (Inr (), cursor1)
           | Inr (Some v) \<Rightarrow>
               (case v of
                  SqlBigint count # rest \<Rightarrow>
                    (let limit = count - cap in
                     if limit > 0 then
                       (case execute cursor1 (DELETE_CONVERSATION_HISTORY_STATEMENT (count - cap)) of
                          (Inl e, cursor2) \<Rightarrow> (Inl e, cursor2)
                        | (Inr rs2, cursor2) \<Rightarrow> (Inr (), cursor2))
                     else (Inr (), cursor1))
                | [] \<Rightarrow> (Inl IndexError, cursor1)
                | other # rest \<Rightarrow> (Inl TypeError, cursor1))))"

definition PostgresCache_delete :: "pg_connection \<Rightarrow> string \<Rightarrow> string \<Rightarrow> (error + bool) \<times> pg_connection" where
  "PostgresCache_delete cursor uid cid =
     (case execute cursor (DELETE_SINGLE_CONVERSATION_STATEMENT uid cid) of
        (Inl e, cursor1) \<Rightarrow> (Inl e, cursor1)
      | (Inr rs, cursor1) \<Rightarrow>
          (case fetchone rs of
             Inl e \<Rightarrow> (Inl (DatabaseError e), cursor1)
           | Inr r \<Rightarrow> (Inr (r \<noteq> None), cursor1)))"

text \<open>
  The comprehension \<^verbatim>\<open>[CacheEntry.from_dict(cache_entry) for cache_entry in value]\<close>
  of \<^verbatim>\<open>get\<close>. Iterating over a string or a dict yields strings, which
  \<open>from_dict\<close> rejects; \<^verbatim>\<open>None\<close>, booleans and numbers are not iterable.
\<close>

fun from_dicts :: "pyvalue list \<Rightarrow> error + CacheEntry list" where
  "from_dicts [] = Inr []"
| "from_dicts (d # ds) =
     (case from_dict d of
        Inl e \<Rightarrow> Inl e
      | Inr entry \<Rightarrow> (case from_dicts ds of Inl e \<Rightarrow> Inl e | Inr entries \<Rightarrow> Inr (entry # entries)))"

fun history_of :: "pyvalue \<Rightarrow> error + CacheEntry list" where
  "history_of (PyList ds) = from_dicts ds"
| "history_of (PyStr s) = (if s = [] then Inr [] else Inl TypeError)"
| "history_of (PyDict kvs) = (if kvs = [] then Inr [] else Inl TypeError)"
| "history_of v = Inl TypeError"

text \<open>\<^verbatim>\<open>old_value.append(value)\<close>: only a list has the method.\<close>

fun py_append :: "pyvalue \<Rightarrow> pyvalue \<Rightarrow> error + pyvalue" where
  "py_append (PyList xs) x = Inr (PyList (xs @ [x]))"
| "py_append v x = Inl AttributeError"

definition with_cursor :: "PostgresCache \<Rightarrow> pg_connection \<Rightarrow> PostgresCache" where
  "with_cursor self cursor = self\<lparr>connection := cursor\<rparr>"

definition get :: "PostgresCache \<Rightarrow> string \<Rightarrow> string \<Rightarrow> bool \<Rightarrow> (error + CacheEntry list) \<times> PostgresCache" where
  "get self uid cid skip_user_id_check =
     (case construct_key uid cid skip_user_id_check of
        Inl e \<Rightarrow> (Inl e, self)
      | Inr k \<Rightarrow>
          (case PostgresCache_select (connection self) uid cid of
             (Inl e, cursor) \<Rightarrow> (Inl (wrap ''PostgresCache.get'' e), with_cursor self cursor)
           | (Inr v, cursor) \<Rightarrow>
               if v = PyNone then (Inr [], with_cursor self cursor)
               else (case history_of v of
                       Inl e \<Rightarrow> (Inl (wrap ''PostgresCache.get'' e), with_cursor self cursor)
                     | Inr history \<Rightarrow> (Inr history, with_cursor self cursor))))"

definition insert_or_append ::
  "PostgresCache \<Rightarrow> string \<Rightarrow> string \<Rightarrow> CacheEntry \<Rightarrow> string \<Rightarrow> bool \<Rightarrow> (error + unit) \<times> PostgresCache" where
  "insert_or_append self uid cid cache_entry summary skip_user_id_check =
     (let v = to_dict cache_entry in
      case PostgresCache_select (connection self) uid cid of
        (Inl e, cursor) \<Rightarrow> (Inl (wrap ''PostgresCache.insert_or_append'' e), with_cursor self cursor)
      | (Inr old_value, cursor) \<Rightarrow>
          if truthy old_value then
            (case py_append old_value v of
               Inl e \<Rightarrow> (Inl (wrap ''PostgresCache.insert_or_append'' e), with_cursor self cursor)
             | Inr appended \<Rightarrow>
                 (case PostgresCache_update cursor uid cid (dumps appended) of
                    (Inl e, cursor1) \<Rightarrow>
                      (Inl (wrap ''PostgresCache.insert_or_append'' e), with_cursor self cursor1)
                  | (Inr u, cursor1) \<Rightarrow> (Inr (), with_cursor self cursor1)))
          else
            (case PostgresCache_insert cursor uid cid (dumps (PyList [v])) summary of
               (Inl e, cursor1) \<Rightarrow>
                 (Inl (wrap ''PostgresCache.insert_or_append'' e), with_cursor self cursor1)
             | (Inr u, cursor1) \<Rightarrow>
                 (case PostgresCache_cleanup cursor1 (capacity self) of
                    (Inl e, cursor2) \<Rightarrow>
                      (Inl (wrap ''PostgresCache.insert_or_append'' e), with_cursor self cursor2)
                  | (Inr u2, cursor2) \<Rightarrow> (Inr (), with_cursor self cursor2))))"

definition delete :: "PostgresCache \<Rightarrow> string \<Rightarrow> string \<Rightarrow> bool \<Rightarrow> (error + bool) \<times> PostgresCache" where
  "delete self uid cid skip_user_id_check =
     (case PostgresCache_delete (connection self) uid cid of
        (Inl e, cursor) \<Rightarrow> (Inl (wrap ''PostgresCache.delete'' e), with_cursor self cursor)
      | (Inr b, cursor) \<Rightarrow> (Inr b, with_cursor self cursor))"

text \<open>
  \<^verbatim>\<open>list\<close>: each fetched row becomes the dict
  \<^verbatim>\<open>{"conversation_id": row[0], "topic_summary": row[1]}\<close>, here the pair of the
  two fields.
\<close>

fun conversation_dicts :: "cell list list \<Rightarrow> error + (cell \<times> cell) list" where
  "conversation_dicts [] = Inr []"
| "conversation_dicts (r # rs) =
     (case r of
        a # b # rest \<Rightarrow>
          (case conversation_dicts rs of Inl e \<Rightarrow> Inl e | Inr ds \<Rightarrow> Inr ((a, b) # ds))
      | short \<Rightarrow> Inl IndexError)"

definition list' :: "PostgresCache \<Rightarrow> string \<Rightarrow> bool \<Rightarrow> (error + (cell \<times> cell) list) \<times> PostgresCache" where
  "list' self uid skip_user_id_check =
     (case execute (connection self) (LIST_CONVERSATIONS_STATEMENT uid) of
        (Inl e, cursor) \<Rightarrow> (Inl (wrap ''PostgresCache.list'' e), with_cursor self cursor)
      | (Inr rs, cursor) \<Rightarrow>
          (case fetchall rs of
             Inl e \<Rightarrow> (Inl (CacheError ''PostgresCache.list'' e), with_cursor self cursor)
           | Inr rows \<Rightarrow>
               (case conversation_dicts rows of
                  Inl e \<Rightarrow> (Inl (wrap ''PostgresCache.list'' e), with_cursor self cursor)
                | Inr ds \<Rightarrow> (Inr ds, with_cursor self cursor))))"

section \<open>Sequences of calls\<close>

text \<open>
  Between two calls the clock moves and the server may fail or recover, and it may fail
  in the middle of a call; a request carries the time at which it is served and the
  server's answers to its statements.
\<close>

definition environment ::
  "PostgresCache \<Rightarrow> timestamp \<Rightarrow> dberror option \<Rightarrow> dberror option list \<Rightarrow> PostgresCache" where
  "environment self t f fs =
     self\<lparr>connection := (connection self)\<lparr>now := t, fault := f, later := fs\<rparr>\<rparr>"

datatype request =
  Request timestamp "dberror option" "dberror option list" string string CacheEntry string bool

fun outcome :: "PostgresCache \<Rightarrow> request \<Rightarrow> error + unit" where
  "outcome self (Request t f fs uid cid e s k) =
     fst (insert_or_append (environment self t f fs) uid cid e s k)"

fun serve :: "PostgresCache \<Rightarrow> request \<Rightarrow> PostgresCache" where
  "serve self (Request t f fs uid cid e s k) =
     snd (insert_or_append (environment self t f fs) uid cid e s k)"

text \<open>The cache as it is after each call of a sequence.\<close>

fun trace :: "PostgresCache \<Rightarrow> request list \<Rightarrow> PostgresCache list" where
  "trace self [] = []"
| "trace self (r # rs) = serve self r # trace (serve self r) rs"

definition count_records :: "PostgresCache \<Rightarrow> nat" where
  "count_records self = length (cache (connection self))"

text \<open>
  No call of the sequence is cut off after its INSERT: each call returns normally or
  leaves the table as it was. (A call that raises has changed the table only if its
  INSERT went through and a statement of \<^verbatim>\<open>_cleanup\<close> failed.)
\<close>

fun uninterrupted :: "PostgresCache \<Rightarrow> request list \<Rightarrow> bool" where
  "uninterrupted self [] = True"
| "uninterrupted self (r # rs) =
     ((outcome self r = Inr () \<or> cache (connection (serve self r)) = cache (connection self)) \<and>
      uninterrupted (serve self r) rs)"

text \<open>
  The branch a call of \<^verbatim>\<open>insert_or_append\<close> takes: the test
  \<^verbatim>\<open>if old_value:\<close> on what \<^verbatim>\<open>_select\<close> returned.
\<close>

definition append_branch :: "PostgresCache \<Rightarrow> string \<Rightarrow> string \<Rightarrow> bool" where
  "append_branch self uid cid =
     (case fst (PostgresCache_select (connection self) uid cid) of
        Inl e \<Rightarrow> False
      | Inr old_value \<Rightarrow> truthy old_value)"

definition insert_branch :: "PostgresCache \<Rightarrow> string \<Rightarrow> string \<Rightarrow> bool" where
  "insert_branch self uid cid =
     (case fst (PostgresCache_select (connection self) uid cid) of
        Inl e \<Rightarrow> False
      | Inr old_value \<Rightarrow> \<not> truthy old_value)"

text \<open>
  Further calls for one key, each of which has to take the append branch and to return
  normally; \<open>None\<close> when one of them does not.
\<close>

datatype turn = Turn timestamp CacheEntry string bool

fun entry_of :: "turn \<Rightarrow> CacheEntry" where
  "entry_of (Turn t e s k) = e"

fun append_all :: "PostgresCache \<Rightarrow> string \<Rightarrow> string \<Rightarrow> turn list \<Rightarrow> PostgresCache option" where
  "append_all self uid cid [] = Some self"
| "append_all self uid cid (Turn t e s k # rest) =
     (let self0 = environment self t (fault (connection self)) (later (connection self)) in
      if append_branch self0 uid cid \<and> fst (insert_or_append self0 uid cid e s k) = Inr ()
      then append_all (snd (insert_or_append self0 uid cid e s k)) uid cid rest
      else None)"

section \<open>Notions used to state the properties\<close>

text \<open>The record stored for a key, if any.\<close>

definition stored :: "pg_connection \<Rightarrow> string \<Rightarrow> string \<Rightarrow> row option" where
  "stored cursor u c = find (\<lambda>r. pkey r = (u, c)) (cache cursor)"

text \<open>
  The table after \<^verbatim>\<open>_cleanup\<close> with capacity \<open>cap\<close>, and the overflow that
  \<^verbatim>\<open>_cleanup\<close> computes.
\<close>

definition overflow :: "int \<Rightarrow> row list \<Rightarrow> int" where
  "overflow cap rows = int (length rows) - cap"

definition evict :: "int \<Rightarrow> row list \<Rightarrow> row list" where
  "evict cap rows =
     (if overflow cap rows > 0
      then filter (\<lambda>r. pkey r \<notin> set (map pkey (oldest (nat (overflow cap rows)) rows))) rows
      else rows)"

text \<open>The row that the insert branch writes, and the table after the append branch.\<close>

definition new_row :: "pg_connection \<Rightarrow> string \<Rightarrow> string \<Rightarrow> CacheEntry \<Rightarrow> string \<Rightarrow> row" where
  "new_row cursor u c e s =
     \<lparr>user_id = u, conversation_id = c, value_col = Some (dumps (PyList [to_dict e])),
      topic_summary = Some s, updated_at = Some (now cursor)\<rparr>"

definition touch :: "pg_connection \<Rightarrow> pyvalue list \<Rightarrow> row \<Rightarrow> row" where
  "touch cursor ds r = r\<lparr>value_col := Some (dumps (PyList ds)), updated_at := Some (now cursor)\<rparr>"

definition appended :: "pg_connection \<Rightarrow> string \<Rightarrow> string \<Rightarrow> pyvalue list \<Rightarrow> row list" where
  "appended cursor u c ds = map (\<lambda>r. if pkey r = (u, c) then touch cursor ds r else r) (cache cursor)"

section \<open>The quota limiter\<close>

text \<open>
  Modelled from the spec: \<^verbatim>\<open>QuotaLimiter\<close> is an abstract class, and its methods
  \<^verbatim>\<open>available_quota\<close> and \<^verbatim>\<open>consume_tokens\<close> have no body in the
  sources; no concrete limiter is among them. The spec: \<^verbatim>\<open>consume_tokens\<close>
  decrements the subject's remaining budget by the sum of input and output token counts
  and must not allow the counter to go negative; a request whose cost exceeds the
  remaining balance either clamps at zero or fails, and the chosen policy is applied
  consistently. The policy is a field of the limiter, since the spec leaves the choice
  open.
\<close>

datatype overdraft_policy = Clamp | Fail

datatype quota_error = QuotaExceeded

record QuotaLimiter =
  policy :: overdraft_policy
  available :: "string \<Rightarrow> int"

definition available_quota :: "QuotaLimiter \<Rightarrow> string \<Rightarrow> int" where
  "available_quota self subject_id = available self subject_id"

definition consume_tokens :: "QuotaLimiter \<Rightarrow> int \<Rightarrow> int \<Rightarrow> string \<Rightarrow> (quota_error + unit) \<times> QuotaLimiter" where
  "consume_tokens self input_tokens output_tokens subject_id =
     (let cost = input_tokens + output_tokens;
          remaining = available self subject_id
      in if cost \<le> remaining
         then (Inr (), self\<lparr>available := (available self)(subject_id := remaining - cost)\<rparr>)
         else (case policy self of
                 Clamp \<Rightarrow> (Inr (), self\<lparr>available := (available self)(subject_id := 0)\<rparr>)
               | Fail \<Rightarrow> (Inl QuotaExceeded, self)))"

datatype consumption = Consume int int string

fun consume_all :: "QuotaLimiter \<Rightarrow> consumption list \<Rightarrow> QuotaLimiter" where
  "consume_all self [] = self"
| "consume_all self (Consume i out subj # rest) =
     consume_all (snd (consume_tokens self i out subj)) rest"

text \<open>
  What \<^verbatim>\<open>get\<close> makes of a stored row: the deserialised column, \<^verbatim>\<open>[]\<close>
  for a JSON \<^verbatim>\<open>null\<close>, otherwise the entries read back from it.
\<close>

definition answer :: "row \<Rightarrow> error + CacheEntry list" where
  "answer r = (case loads (cell_of r) of
                 Inl e \<Rightarrow> Inl e
               | Inr v \<Rightarrow> if v = PyNone then Inr [] else history_of v)"

text \<open>The rows that \<^verbatim>\<open>list\<close> reports for a user.\<close>

definition listing :: "row list \<Rightarrow> string \<Rightarrow> (cell \<times> cell) list" where
  "listing rows u =
     map (\<lambda>r. (SqlText (conversation_id r),
                case topic_summary r of None \<Rightarrow> SqlNull | Some s \<Rightarrow> SqlText s))
         (sort_key desc_key (filter (\<lambda>r. user_id r = u) rows))"

text \<open>The record of a key holds the serialised entries \<open>es\<close>.\<close>

definition holds :: "PostgresCache \<Rightarrow> string \<Rightarrow> string \<Rightarrow> CacheEntry list \<Rightarrow> bool" where
  "holds self u c es =
     (es \<noteq> [] \<and> sendable u \<and> sendable c \<and>
      map_option value_col (stored (connection self) u c) =
        Some (Some (dumps (PyList (map to_dict es)))))"

section \<open>Example data\<close>

definition alice :: string where
  "alice = ''11111111-1111-1111-1111-111111111111''"

definition conv_a :: string where
  "conv_a = ''aaaaaaaa-aaaa-aaaa-aaaa-aaaaaaaaaaaa''"

definition conv_b :: string where
  "conv_b = ''bbbbbbbb-bbbb-bbbb-bbbb-bbbbbbbbbbbb''"

definition hello :: CacheEntry where
  "hello = \<lparr>kind = Human, content = ''hello''\<rparr>"

definition reply :: CacheEntry where
  "reply = \<lparr>kind = Assistant, content = ''hi''\<rparr>"

text \<open>A cache of capacity \<open>cap\<close> on an empty table.\<close>

definition empty_cache :: "int \<Rightarrow> PostgresCache" where
  "empty_cache cap =
     \<lparr>capacity = cap, connection = \<lparr>cache = [], now = 0, fault = None, later = [], executed = 0\<rparr>\<rparr>"

text \<open>A cache holding one conversation, one whose stored bytes are not JSON, and one
  whose server answers every statement with an error.\<close>

definition one_record :: PostgresCache where
  "one_record =
     \<lparr>capacity = 3,
      connection = \<lparr>cache = [\<lparr>user_id = alice, conversation_id = conv_a,
                                 value_col = Some (Utf8Json (PyList [PyEntry hello])),
                                 topic_summary = Some ''greeting'', updated_at = Some 1\<rparr>],
                     now = 2, fault = None, later = [], executed = 0\<rparr>\<rparr>"

definition garbled :: PostgresCache where
  "garbled =
     \<lparr>capacity = 3,
      connection = \<lparr>cache = [\<lparr>user_id = alice, conversation_id = conv_a,
                                 value_col = Some (Bytes [255]),
                                 topic_summary = Some ''greeting'', updated_at = Some 1\<rparr>],
                     now = 2, fault = None, later = [], executed = 0\<rparr>\<rparr>"

definition offline :: PostgresCache where
  "offline =
     \<lparr>capacity = 3,
      connection = \<lparr>cache = [], now = 2, fault = Some OperationalError, later = [], executed = 0\<rparr>\<rparr>"

text \<open>A limiter in which every subject has ten tokens left.\<close>

definition example_limiter :: "overdraft_policy \<Rightarrow> QuotaLimiter" where
  "example_limiter p = \<lparr>policy = p, available = (\<lambda>s. 10)\<rparr>"

text \<open>A cache of capacity one that is full.\<close>

definition full_cache :: PostgresCache where
  "full_cache =
     \<lparr>capacity = 1,
      connection = \<lparr>cache = [\<lparr>user_id = alice, conversation_id = conv_a,
                                 value_col = Some (Utf8Json (PyList [PyEntry hello])),
                                 topic_summary = Some ''greeting'', updated_at = Some 1\<rparr>],
                     now = 2, fault = None, later = [], executed = 0\<rparr>\<rparr>"

section \<open>What each method does\<close>

lemma find_filter_conv: "find P xs = (case filter P xs of [] \<Rightarrow> None | x # ys \<Rightarrow> Some x)"
  by (induction xs) auto

lemma stored_None_iff: "stored cursor u c = None \<longleftrightarrow> (u, c) \<notin> set (map pkey (cache cursor))"
  by (force simp: stored_def find_None_iff)

lemma stored_Some_key: "stored cursor u c = Some r \<Longrightarrow> (u, c) \<in> set (map pkey (cache cursor))"
  using stored_None_iff[of cursor u c] by auto

lemma sent_frame:
  "cache (sent cursor) = cache cursor"
  "now (sent cursor) = now cursor"
  "executed (sent cursor) = Suc (executed cursor)"
  "stored (sent cursor) u c = stored cursor u c"
  by (simp_all add: sent_def stored_def)

lemma sent_same_cache: "(sent cursor)\<lparr>cache := cache cursor\<rparr> = sent cursor"
  by (simp add: sent_def)

lemma select_eq:
  "PostgresCache_select cursor u c =
     (if sendable u \<and> sendable c
      then (case fault cursor of
              Some e \<Rightarrow> Inl (DatabaseError e)
            | None \<Rightarrow> (case stored cursor u c of
                         None \<Rightarrow> Inr PyNone
                       | Some r \<Rightarrow> loads (cell_of r)),
            sent cursor)
      else (Inl ValueError, cursor))"
  by (auto simp: PostgresCache_select_def execute_def find_filter_conv stored_def sent_def
      split: option.splits list.splits sum.splits)

lemma update_eq:
  "PostgresCache_update cursor u c b =
     (if sendable u \<and> sendable c
      then (case fault cursor of
              Some e \<Rightarrow> (Inl (DatabaseError e), sent cursor)
            | None \<Rightarrow>
                (Inr (), (sent cursor)\<lparr>cache :=
                   map (\<lambda>r. if pkey r = (u, c)
                             then r\<lparr>value_col := Some b, updated_at := Some (now cursor)\<rparr>
                             else r) (cache cursor)\<rparr>))
      else (Inl ValueError, cursor))"
  by (auto simp: PostgresCache_update_def execute_def split: option.splits)

lemma insert_eq:
  "PostgresCache_insert cursor u c b s =
     (if sendable u \<and> sendable c \<and> sendable s
      then (case fault cursor of
              Some e \<Rightarrow> (Inl (DatabaseError e), sent cursor)
            | None \<Rightarrow>
                if (u, c) \<in> set (map pkey (cache cursor))
                then (Inl (DatabaseError IntegrityError), sent cursor)
                else (Inr (), (sent cursor)\<lparr>cache := cache cursor @
                        [\<lparr>user_id = u, conversation_id = c, value_col = Some b,
                          topic_summary = Some s, updated_at = Some (now cursor)\<rparr>]\<rparr>))
      else (Inl ValueError, cursor))"
  by (auto simp: PostgresCache_insert_def execute_def split: option.splits)

lemma cleanup_eq:
  "PostgresCache_cleanup cursor cap =
     (case fault cursor of
        Some e \<Rightarrow> (Inl (DatabaseError e), sent cursor)
      | None \<Rightarrow>
          if 0 < overflow cap (cache cursor)
          then (case fault (sent cursor) of
                  Some e \<Rightarrow> (Inl (DatabaseError e), sent (sent cursor))
                | None \<Rightarrow>
                    if bigint_max < overflow cap (cache cursor)
                    then (Inl (DatabaseError DataError), sent (sent cursor))
                    else (Inr (), (sent (sent cursor))\<lparr>cache := evict cap (cache cursor)\<rparr>))
          else (Inr (), sent cursor))"
  by (auto simp: PostgresCache_cleanup_def execute_def Let_def evict_def overflow_def sent_frame
      sent_same_cache split: option.splits)

lemma delete_eq:
  "PostgresCache_delete cursor u c =
     (if sendable u \<and> sendable c
      then (case fault cursor of
              Some e \<Rightarrow> (Inl (DatabaseError e), sent cursor)
            | None \<Rightarrow>
                (Inl (DatabaseError ProgrammingError),
                 (sent cursor)\<lparr>cache := filter (\<lambda>r. pkey r \<noteq> (u, c)) (cache cursor)\<rparr>))
      else (Inl ValueError, cursor))"
  by (auto simp: PostgresCache_delete_def execute_def split: option.splits)

lemma insert_or_append_frame:
  "capacity (snd (insert_or_append self u c e s k)) = capacity self"
  "now (connection (snd (insert_or_append self u c e s k))) = now (connection self)"
  by (auto simp: insert_or_append_def select_eq update_eq insert_eq cleanup_eq with_cursor_def Let_def
      sent_frame split: option.splits sum.splits pyvalue.splits)

lemma insert_or_append_success:
  assumes "fst (insert_or_append self u c e s k) = Inr ()"
  shows "fault (connection self) = None \<and> sendable u \<and> sendable c \<and>
         ((\<exists>r ds. stored (connection self) u c = Some r \<and>
                  value_col r = Some (Utf8Json (PyList ds)) \<and> ds \<noteq> [] \<and>
                  cache (connection (snd (insert_or_append self u c e s k))) =
                    appended (connection self) u c (ds @ [to_dict e])) \<or>
          (stored (connection self) u c = None \<and>
           cache (connection (snd (insert_or_append self u c e s k))) =
             evict (capacity self) (cache (connection self) @ [new_row (connection self) u c e s])))"
proof -
  from assms have su: "sendable u \<and> sendable c"
    by (auto simp: insert_or_append_def select_eq Let_def split: if_splits)
  from assms su have f: "fault (connection self) = None"
    by (auto simp: insert_or_append_def select_eq Let_def split: option.splits)
  show ?thesis
  proof (cases "stored (connection self) u c")
    case None
    then have nk: "(u, c) \<notin> set (map pkey (cache (connection self)))"
      by (simp add: stored_None_iff)
    from assms su f None nk
    have "cache (connection (snd (insert_or_append self u c e s k))) =
             evict (capacity self) (cache (connection self) @ [new_row (connection self) u c e s])"
      by (auto simp: insert_or_append_def select_eq insert_eq cleanup_eq Let_def sent_frame
          with_cursor_def new_row_def evict_def
          split: option.splits if_splits)
    with su f None show ?thesis by simp
  next
    case (Some r)
    then have key: "(u, c) \<in> set (map pkey (cache (connection self)))"
      by (rule stored_Some_key)
    from assms su f Some key obtain ds where ds: "loads (cell_of r) = Inr (PyList ds)" "ds \<noteq> []"
      by (cases "loads (cell_of r)"; cases "projr (loads (cell_of r))")
         (auto simp: insert_or_append_def select_eq insert_eq Let_def sent_frame
            split: option.splits if_splits)
    then have v: "value_col r = Some (Utf8Json (PyList ds))"
      by (auto simp: cell_of_def split: option.splits elim: loads.elims)
    from assms su f Some ds
    have "cache (connection (snd (insert_or_append self u c e s k))) =
            appended (connection self) u c (ds @ [to_dict e])"
      by (auto simp: insert_or_append_def select_eq update_eq Let_def sent_frame
          with_cursor_def appended_def touch_def
          split: option.splits if_splits cong: if_cong)
    with su f Some v ds show ?thesis by blast
  qed
qed

lemma insert_or_append_stored_frame:
  assumes "stored (connection self) u c = Some r"
  shows "cache (connection (snd (insert_or_append self u c e s k))) = cache (connection self) \<or>
         (\<exists>ds. value_col r = Some (dumps (PyList ds)) \<and>
               cache (connection (snd (insert_or_append self u c e s k))) =
                 appended (connection self) u c (ds @ [to_dict e]))"
proof -
  have key: "(u, c) \<in> set (map pkey (cache (connection self)))"
    using assms by (rule stored_Some_key)
  show ?thesis
  proof (cases "loads (cell_of r)")
    case (Inl x)
    with assms show ?thesis
      by (auto simp: insert_or_append_def select_eq Let_def sent_frame with_cursor_def
          split: option.splits)
  next
    case (Inr v)
    show ?thesis
    proof (cases v)
      case (PyList ds)
      with Inr have v: "value_col r = Some (dumps (PyList ds))"
        by (auto simp: cell_of_def dumps_def split: option.splits elim: loads.elims)
      from assms Inr PyList key
      have "cache (connection (snd (insert_or_append self u c e s k))) = cache (connection self) \<or>
            cache (connection (snd (insert_or_append self u c e s k))) =
                 appended (connection self) u c (ds @ [to_dict e])"
        by (auto simp: insert_or_append_def select_eq update_eq insert_eq Let_def sent_frame
            with_cursor_def appended_def touch_def
            split: option.splits cong: if_cong)
      with v show ?thesis by blast
    qed (use assms Inr key in \<open>auto simp: insert_or_append_def select_eq insert_eq Let_def sent_frame
            with_cursor_def split: option.splits\<close>)
  qed
qed

lemma sent_cache_update: "sent (cursor\<lparr>cache := X\<rparr>) = (sent cursor)\<lparr>cache := X\<rparr>"
  by (cases "later cursor") (simp_all add: sent_def)

lemma answers_next_fault: "answers_next (Suc n) cursor \<Longrightarrow> fault cursor = None"
  by simp

lemma insert_or_append_inserts:
  assumes "answers_next 4 (connection self)"
    and "stored (connection self) u c = None"
    and "sendable u" and "sendable c" and "sendable s"
    and "overflow (capacity self) (cache (connection self) @ [new_row (connection self) u c e s])
           \<le> bigint_max"
  shows "fst (insert_or_append self u c e s k) = Inr ()"
    and "cache (connection (snd (insert_or_append self u c e s k))) =
           evict (capacity self) (cache (connection self) @ [new_row (connection self) u c e s])"
    and "executed (connection (snd (insert_or_append self u c e s k))) =
           (if 0 < overflow (capacity self) (cache (connection self) @ [new_row (connection self) u c e s])
            then Suc (Suc (Suc (Suc (executed (connection self)))))
            else Suc (Suc (Suc (executed (connection self)))))"
proof -
  from assms(1) have f: "fault (connection self) = None" "fault (sent (connection self)) = None"
    "fault (sent (sent (connection self))) = None"
    "fault (sent (sent (sent (connection self)))) = None"
    by (simp_all add: numeral_eq_Suc)
  have nk: "(u, c) \<notin> set (map pkey (cache (connection self)))"
    using assms(2) by (simp add: stored_None_iff)
  from f nk assms(2-6)
  show "fst (insert_or_append self u c e s k) = Inr ()"
    by (simp add: insert_or_append_def select_eq insert_eq cleanup_eq Let_def sent_frame new_row_def
        sent_cache_update)
  from f nk assms(2-6)
  show "cache (connection (snd (insert_or_append self u c e s k))) =
           evict (capacity self) (cache (connection self) @ [new_row (connection self) u c e s])"
    by (simp add: insert_or_append_def select_eq insert_eq cleanup_eq Let_def sent_frame new_row_def
        with_cursor_def evict_def sent_cache_update)
  from f nk assms(2-6)
  show "executed (connection (snd (insert_or_append self u c e s k))) =
           (if 0 < overflow (capacity self) (cache (connection self) @ [new_row (connection self) u c e s])
            then Suc (Suc (Suc (Suc (executed (connection self)))))
            else Suc (Suc (Suc (executed (connection self)))))"
    by (simp add: insert_or_append_def select_eq insert_eq cleanup_eq Let_def sent_frame new_row_def
        with_cursor_def sent_cache_update)
qed

lemma insert_or_append_appends:
  assumes "answers_next 2 (connection self)"
    and "stored (connection self) u c = Some r"
    and "value_col r = Some (Utf8Json (PyList ds))" and "ds \<noteq> []"
    and "sendable u" and "sendable c"
  shows "fst (insert_or_append self u c e s k) = Inr ()"
    and "cache (connection (snd (insert_or_append self u c e s k))) =
           appended (connection self) u c (ds @ [to_dict e])"
proof -
  from assms(1) have f: "fault (connection self) = None" "fault (sent (connection self)) = None"
    by (simp_all add: numeral_eq_Suc)
  from f assms(2-6)
  show "fst (insert_or_append self u c e s k) = Inr ()"
    by (simp add: insert_or_append_def select_eq update_eq Let_def sent_frame cell_of_def)
  from f assms(2-6)
  show "cache (connection (snd (insert_or_append self u c e s k))) =
           appended (connection self) u c (ds @ [to_dict e])"
    by (simp add: insert_or_append_def select_eq update_eq Let_def sent_frame cell_of_def
        with_cursor_def appended_def touch_def cong: if_cong)
qed

lemma quiet_answers: "fault cursor = None \<Longrightarrow> later cursor = [] \<Longrightarrow> answers_next n cursor"
  by (induction n arbitrary: cursor) (simp_all add: sent_def)

lemma check_alice: "check_suid alice"
  by (simp add: alice_def check_suid_def is_hex_def enumerate_eq_zip upt_rec)

lemma check_conv_a: "check_suid conv_a"
  by (simp add: conv_a_def check_suid_def is_hex_def enumerate_eq_zip upt_rec)

lemma check_conv_b: "check_suid conv_b"
  by (simp add: conv_b_def check_suid_def is_hex_def enumerate_eq_zip upt_rec)

lemma check_not_uuid: "\<not> check_suid ''not-uuid''"
  by (simp add: check_suid_def)

lemma uuid_sendable:
  assumes "check_suid s"
  shows "sendable s"
proof -
  have "ch = CHR ''-'' \<or> is_hex ch" if "ch \<in> set s" for ch
  proof -
    from that obtain i where i: "i < length s" "s ! i = ch"
      by (auto simp: in_set_conv_nth)
    then have "(i, ch) \<in> set (enumerate 0 s)"
      by (auto simp: in_set_enumerate_eq)
    with assms show ?thesis
      by (auto simp: check_suid_def list_all_iff split: if_splits)
  qed
  then show ?thesis
    by (auto simp: sendable_def is_hex_def)
qed

lemma sendable_examples: "sendable alice" "sendable conv_a" "sendable conv_b" "sendable ''not-uuid''"
  "sendable []" "sendable ''greeting''"
  by (simp_all add: uuid_sendable check_alice check_conv_a check_conv_b) (simp_all add: sendable_def)

lemma loads_error: "loads x = Inl e \<Longrightarrow> e = ValueError \<or> e = TypeError"
  by (cases x rule: loads.cases) auto

lemma from_dict_error: "from_dict x = Inl e \<Longrightarrow> e = ValueError \<or> e = TypeError"
  by (cases x rule: from_dict.cases) auto

lemma from_dicts_error: "from_dicts xs = Inl e \<Longrightarrow> e = ValueError \<or> e = TypeError"
  by (induction xs) (auto split: sum.splits dest: from_dict_error)

lemma history_of_error: "history_of x = Inl e \<Longrightarrow> e = ValueError \<or> e = TypeError"
  by (cases x rule: history_of.cases) (auto split: if_splits dest: from_dicts_error)

lemma answer_error: "answer r = Inl e \<Longrightarrow> e = ValueError \<or> e = TypeError"
  by (auto simp: answer_def split: sum.splits if_splits dest: loads_error history_of_error)

lemma with_cursor_same: "with_cursor self (connection self) = self"
  by (simp add: with_cursor_def)

lemma get_eq:
  "get self u c k =
     (case construct_key u c k of
        Inl e \<Rightarrow> (Inl e, self)
      | Inr ok \<Rightarrow>
          if sendable u \<and> sendable c
          then (case fault (connection self) of
                  Some d \<Rightarrow> Inl (CacheError ''PostgresCache.get'' d)
                | None \<Rightarrow> (case stored (connection self) u c of
                             None \<Rightarrow> Inr []
                           | Some r \<Rightarrow> answer r),
                with_cursor self (sent (connection self)))
          else (Inl ValueError, self))"
  by (auto simp: get_def select_eq answer_def with_cursor_same split: sum.splits option.splits
      dest!: loads_error history_of_error)

lemma delete_full:
  "delete self u c k =
     (if sendable u \<and> sendable c
      then (Inl (CacheError ''PostgresCache.delete''
                   (case fault (connection self) of Some d \<Rightarrow> d | None \<Rightarrow> ProgrammingError)),
            with_cursor self ((sent (connection self))\<lparr>
              cache := (case fault (connection self) of
                          Some d \<Rightarrow> cache (connection self)
                        | None \<Rightarrow> filter (\<lambda>r. pkey r \<noteq> (u, c)) (cache (connection self)))\<rparr>))
      else (Inl ValueError, self))"
  by (simp add: delete_def delete_eq with_cursor_same sent_same_cache split: option.splits)

lemma conversation_dicts_map:
  "conversation_dicts (map (\<lambda>r. [f r, g r]) rows) = Inr (map (\<lambda>r. (f r, g r)) rows)"
  by (induction rows) auto

lemma list_eq:
  "list' self u k =
     (if sendable u
      then (case fault (connection self) of
              Some d \<Rightarrow> Inl (CacheError ''PostgresCache.list'' d)
            | None \<Rightarrow> Inr (listing (cache (connection self)) u),
            with_cursor self (sent (connection self)))
      else (Inl ValueError, self))"
  by (simp add: list'_def execute_def listing_def conversation_dicts_map with_cursor_same
      sent_same_cache split: option.splits)

lemma checked_sendable:
  assumes "construct_key u c False = Inr ()"
  shows "sendable u \<and> sendable c"
  using assms by (auto simp: construct_key_def uuid_sendable split: if_splits)

section \<open>Reading a key that has no record\<close>

text \<open>
  C6. For every key with no stored record, \<^verbatim>\<open>get\<close> with identifiers that pass the
  validation, on a server that answers, returns the empty sequence and raises no error;
  the table is left as it was. (Identifiers that pass the check hold no NUL character;
  with the check skipped, the driver refuses one that does with a ValueError.)
\<close>

theorem get_absent_key_returns_empty:
  assumes "construct_key u c k = Inr ()"
    and "fault (connection self) = None"
    and "stored (connection self) u c = None"
  shows "fst (get self u c k) = (if sendable u \<and> sendable c then Inr [] else Inl ValueError) \<and>
         (k \<or> sendable u \<and> sendable c) \<and>
         cache (connection (snd (get self u c k))) = cache (connection self)"
proof -
  have "k \<or> sendable u \<and> sendable c"
    using assms(1) checked_sendable [of u c] by (cases k) simp_all
  with assms show ?thesis
    by (simp add: get_eq with_cursor_def sent_frame)
qed

theorem get_absent_key_returns_empty_witness:
  "construct_key alice conv_a False = Inr () \<and>
   fault (connection (empty_cache 3)) = None \<and>
   stored (connection (empty_cache 3)) alice conv_a = None \<and>
   fst (get (empty_cache 3) alice conv_a False) = Inr []"
proof -
  have 1: "construct_key alice conv_a False = Inr ()"
    by (simp add: construct_key_def check_alice check_conv_a)
  have 2: "fault (connection (empty_cache 3)) = None"
    by (simp add: empty_cache_def)
  have 3: "stored (connection (empty_cache 3)) alice conv_a = None"
    by (simp add: empty_cache_def stored_def)
  have 4: "fst (get (empty_cache 3) alice conv_a False) = Inr []"
    using get_absent_key_returns_empty [OF 1 2 3] by (simp add: sendable_examples)
  from 1 2 3 4 show ?thesis by blast
qed

section \<open>Identifier validation\<close>

text \<open>
  C3. The claim: for a non-UUID \<^verbatim>\<open>user_id\<close> with \<^verbatim>\<open>skip_user_id_check\<close> unset,
  both \<^verbatim>\<open>get\<close> and \<^verbatim>\<open>insert_or_append\<close> raise InvalidIdentifier before any
  backend operation, with no statement sent and the table unchanged. The code of
  \<^verbatim>\<open>get\<close> does so: it is rejected with no statement sent. The code of
  \<^verbatim>\<open>insert_or_append\<close> never looks at the identifiers: on the empty table the call
  with the user \<^verbatim>\<open>not-uuid\<close> returns normally, sends three statements (the
  SELECT, the INSERT and the count of \<^verbatim>\<open>_cleanup\<close>) and leaves a row stored under
  that user.
\<close>

theorem insert_or_append_accepts_invalid_identifier:
  "construct_key ''not-uuid'' conv_a False = Inl (InvalidIdentifier ''not-uuid'') \<and>
   get (empty_cache 3) ''not-uuid'' conv_a False =
     (Inl (InvalidIdentifier ''not-uuid''), empty_cache 3) \<and>
   fst (insert_or_append (empty_cache 3) ''not-uuid'' conv_a hello [] False) = Inr () \<and>
   executed (connection (snd (insert_or_append (empty_cache 3) ''not-uuid'' conv_a hello [] False))) = 3 \<and>
   cache (connection (snd (insert_or_append (empty_cache 3) ''not-uuid'' conv_a hello [] False))) =
     [\<lparr>user_id = ''not-uuid'', conversation_id = conv_a,
       value_col = Some (Utf8Json (PyList [PyEntry hello])),
       topic_summary = Some [], updated_at = Some 0\<rparr>]"
proof -
  have 1: "answers_next 4 (connection (empty_cache 3))"
    by (rule quiet_answers) (simp_all add: empty_cache_def)
  have 2: "stored (connection (empty_cache 3)) ''not-uuid'' conv_a = None"
    by (simp add: empty_cache_def stored_def)
  have 3: "construct_key ''not-uuid'' conv_a False = Inl (InvalidIdentifier ''not-uuid'')"
    by (simp add: construct_key_def check_not_uuid)
  have 4: "overflow (capacity (empty_cache 3))
             (cache (connection (empty_cache 3)) @
              [new_row (connection (empty_cache 3)) ''not-uuid'' conv_a hello []]) \<le> bigint_max"
    by (simp add: empty_cache_def overflow_def bigint_max_def)
  note ins = insert_or_append_inserts [OF 1 2 sendable_examples(4) sendable_examples(2)
      sendable_examples(5) 4, of False]
  show ?thesis
    unfolding ins
    by (simp add: 3 get_eq empty_cache_def evict_def overflow_def new_row_def dumps_def to_dict_def)
qed

section \<open>Deleting a conversation\<close>

text \<open>
  C4. The claim: \<^verbatim>\<open>delete\<close> returns whether a record existed, false for a key that
  has none and true for one that has. The code sends a DELETE without RETURNING and then
  calls \<^verbatim>\<open>cursor.fetchone()\<close>; the statement leaves no result set, so
  \<^verbatim>\<open>fetchone\<close> raises ProgrammingError, which \<^verbatim>\<open>delete\<close> turns into a
  CacheError. For a stored key the row is removed and the call raises; for a key that is
  not stored the call raises as well. No call returns a boolean.
\<close>

theorem delete_raises_instead_of_reporting:
  "stored (connection one_record) alice conv_a \<noteq> None \<and>
   fst (delete one_record alice conv_a False) =
     Inl (CacheError ''PostgresCache.delete'' ProgrammingError) \<and>
   cache (connection (snd (delete one_record alice conv_a False))) = [] \<and>
   fst (delete (empty_cache 3) alice conv_a False) =
     Inl (CacheError ''PostgresCache.delete'' ProgrammingError)"
  by (simp add: delete_full sendable_examples)
     (simp add: one_record_def empty_cache_def stored_def pkey_def with_cursor_def)

section \<open>Errors of get\<close>

text \<open>
  C5. As amended: every database error that the server raises while \<^verbatim>\<open>get\<close> talks
  to it reaches the caller as a CacheError that carries the cause and the name
  \<^verbatim>\<open>PostgresCache.get\<close>, and \<^verbatim>\<open>get\<close> raises a CacheError only then. What is
  not a database error reaches the caller as it is: the ValueError or TypeError of a
  stored payload that does not deserialise, and the ValueError with which the driver
  refuses an identifier that holds a NUL character (which passes the validation only
  when the check is skipped).
\<close>

theorem get_wraps_database_errors:
  "(fault (connection self) = Some d \<and> construct_key u c k = Inr () \<and>
    sendable u \<and> sendable c \<longrightarrow>
      fst (get self u c k) = Inl (CacheError ''PostgresCache.get'' d)) \<and>
   (fst (get self u c k) = Inl (CacheError name d) \<longrightarrow>
      name = ''PostgresCache.get'' \<and> fault (connection self) = Some d) \<and>
   (fault (connection self) = None \<and> construct_key u c k = Inr () \<and>
    sendable u \<and> sendable c \<and>
    stored (connection self) u c = Some r \<and> loads (cell_of r) = Inl e \<longrightarrow>
      fst (get self u c k) = Inl e \<and> (e = ValueError \<or> e = TypeError)) \<and>
   (construct_key u c k = Inr () \<and> \<not> (sendable u \<and> sendable c) \<longrightarrow>
      k \<and> get self u c k = (Inl ValueError, self))"
proof (intro conjI impI)
  assume "fault (connection self) = Some d \<and> construct_key u c k = Inr () \<and>
    sendable u \<and> sendable c"
  then show "fst (get self u c k) = Inl (CacheError ''PostgresCache.get'' d)"
    by (simp add: get_eq)
next
  assume a: "fst (get self u c k) = Inl (CacheError name d)"
  then show "name = ''PostgresCache.get''"
    by (auto simp: get_eq construct_key_def split: option.splits sum.splits if_splits
        dest: answer_error)
  from a show "fault (connection self) = Some d"
    by (auto simp: get_eq construct_key_def split: option.splits sum.splits if_splits
        dest: answer_error)
next
  assume a: "fault (connection self) = None \<and> construct_key u c k = Inr () \<and>
    sendable u \<and> sendable c \<and>
    stored (connection self) u c = Some r \<and> loads (cell_of r) = Inl e"
  then show "fst (get self u c k) = Inl e"
    by (simp add: get_eq answer_def)
  from a show "e = ValueError \<or> e = TypeError"
    by (auto dest: loads_error)
next
  assume a: "construct_key u c k = Inr () \<and> \<not> (sendable u \<and> sendable c)"
  then show k
    using checked_sendable [of u c] by (cases k) auto
  from a show "get self u c k = (Inl ValueError, self)"
    by (auto simp: get_eq)
qed

theorem get_wraps_database_errors_witness:
  "fault (connection offline) = Some OperationalError \<and>
   construct_key alice conv_a False = Inr () \<and>
   sendable alice \<and> sendable conv_a \<and>
   fst (get offline alice conv_a False) = Inl (CacheError ''PostgresCache.get'' OperationalError) \<and>
   fault (connection garbled) = None \<and>
   stored (connection garbled) alice conv_a = Some (hd (cache (connection garbled))) \<and>
   loads (cell_of (hd (cache (connection garbled)))) = Inl ValueError \<and>
   fst (get garbled alice conv_a False) = Inl ValueError"
proof -
  have 1: "fault (connection offline) = Some OperationalError"
    by (simp add: offline_def)
  have 2: "construct_key alice conv_a False = Inr ()"
    by (simp add: construct_key_def check_alice check_conv_a)
  have 3: "fault (connection garbled) = None"
    by (simp add: garbled_def)
  have 4: "stored (connection garbled) alice conv_a = Some (hd (cache (connection garbled)))"
    by (simp add: garbled_def stored_def pkey_def)
  have 5: "loads (cell_of (hd (cache (connection garbled)))) = Inl ValueError"
    by (simp add: garbled_def cell_of_def)
  have 6: "fst (get offline alice conv_a False) =
             Inl (CacheError ''PostgresCache.get'' OperationalError)"
    using 1 2 sendable_examples(1,2)
      get_wraps_database_errors [of offline OperationalError alice conv_a False "[]"
        "hd (cache (connection garbled))" ValueError]
    by blast
  have 7: "fst (get garbled alice conv_a False) = Inl ValueError"
    using 2 3 4 5 sendable_examples(1,2)
      get_wraps_database_errors [of garbled OperationalError alice conv_a False "[]"
        "hd (cache (connection garbled))" ValueError]
    by blast
  show ?thesis
    using 1 2 3 4 5 6 7 sendable_examples(1,2) by blast
qed

text \<open>
  The claim as stated fails on a malformed payload: the stored bytes of \<open>garbled\<close> are
  not JSON, and \<^verbatim>\<open>get\<close> raises the bare ValueError, not a CacheError.
\<close>

theorem get_malformed_payload_counterexample:
  "construct_key alice conv_a False = Inr () \<and>
   fst (get garbled alice conv_a False) = Inl ValueError \<and>
   fst (get garbled alice conv_a False) \<noteq> Inl (CacheError ''PostgresCache.get'' OperationalError)"
  by (simp add: get_eq construct_key_def check_alice check_conv_a sendable_examples)
     (simp add: garbled_def stored_def pkey_def answer_def cell_of_def)

lemma pkey_touch: "pkey (touch cursor ds r) = pkey r"
  by (simp add: touch_def pkey_def)

lemma find_map_same_key:
  assumes "\<And>x. P (g x) = P x"
  shows "find P (map (\<lambda>x. if P x then g x else x) xs) = map_option g (find P xs)"
  using assms by (induction xs) auto

lemma stored_appended:
  "find (\<lambda>r. pkey r = (u, c)) (appended cursor u c ds) =
     map_option (touch cursor ds) (stored cursor u c)"
  unfolding appended_def stored_def
  by (rule find_map_same_key) (simp add: pkey_touch)

lemma pkeys_appended: "map pkey (appended cursor u c ds) = map pkey (cache cursor)"
  by (simp add: appended_def pkey_touch cong: if_cong)

lemma filter_map_other_key:
  assumes "\<And>x. P (g x) = P x"
  shows "filter (\<lambda>x. \<not> P x) (map (\<lambda>x. if P x then g x else x) xs) = filter (\<lambda>x. \<not> P x) xs"
  using assms by (induction xs) auto

lemma others_appended:
  "filter (\<lambda>x. pkey x \<noteq> (u, c)) (appended cursor u c ds) =
   filter (\<lambda>x. pkey x \<noteq> (u, c)) (cache cursor)"
  unfolding appended_def
  by (rule filter_map_other_key) (simp add: pkey_touch)

lemma append_branch_success:
  assumes "append_branch self u c" and "fst (insert_or_append self u c e s k) = Inr ()"
  shows "\<exists>r ds. stored (connection self) u c = Some r \<and>
           value_col r = Some (Utf8Json (PyList ds)) \<and> ds \<noteq> [] \<and>
           cache (connection (snd (insert_or_append self u c e s k))) =
             appended (connection self) u c (ds @ [to_dict e])"
proof -
  from assms(1) have "stored (connection self) u c \<noteq> None"
    by (auto simp: append_branch_def select_eq split: if_splits option.splits)
  with insert_or_append_success [OF assms(2)] show ?thesis by auto
qed

lemma one_record_stored:
  "stored (connection one_record) alice conv_a = Some (hd (cache (connection one_record)))"
  by (simp add: one_record_def stored_def pkey_def)

lemma one_record_quiet: "answers_next n (connection one_record)"
  by (rule quiet_answers) (simp_all add: one_record_def)

lemma one_record_append:
  "fst (insert_or_append one_record alice conv_a reply [] False) = Inr ()"
  "cache (connection (snd (insert_or_append one_record alice conv_a reply [] False))) =
     [\<lparr>user_id = alice, conversation_id = conv_a,
       value_col = Some (Utf8Json (PyList [PyEntry hello, PyEntry reply])),
       topic_summary = Some ''greeting'', updated_at = Some 2\<rparr>]"
proof -
  have v: "value_col (hd (cache (connection one_record))) = Some (Utf8Json (PyList [PyEntry hello]))"
    by (simp add: one_record_def)
  note app = insert_or_append_appends [OF one_record_quiet one_record_stored v _
      sendable_examples(1) sendable_examples(2), of reply "[]" False]
  show "fst (insert_or_append one_record alice conv_a reply [] False) = Inr ()"
    using app(1) by simp
  show "cache (connection (snd (insert_or_append one_record alice conv_a reply [] False))) =
     [\<lparr>user_id = alice, conversation_id = conv_a,
       value_col = Some (Utf8Json (PyList [PyEntry hello, PyEntry reply])),
       topic_summary = Some ''greeting'', updated_at = Some 2\<rparr>]"
    using app(2) by (simp add: one_record_def appended_def touch_def pkey_def to_dict_def dumps_def)
qed

lemma one_record_append_branch: "append_branch one_record alice conv_a"
  by (simp add: append_branch_def select_eq sendable_examples)
     (simp add: one_record_def stored_def pkey_def cell_of_def)

section \<open>The append branch\<close>

text \<open>
  C7. Eviction runs only on the insert branch. For every call of
  \<^verbatim>\<open>insert_or_append\<close> whose key already has a stored record, no record of any key
  is deleted (the keys of the table are the same before and after), every record of
  another key is unchanged, and the record of the key is either untouched (the call
  failed) or holds its former list with the new entry appended.
\<close>

theorem append_branch_deletes_nothing:
  assumes "stored (connection self) u c = Some r"
  shows "map pkey (cache (connection (snd (insert_or_append self u c e s k)))) =
           map pkey (cache (connection self)) \<and>
         filter (\<lambda>x. pkey x \<noteq> (u, c)) (cache (connection (snd (insert_or_append self u c e s k)))) =
           filter (\<lambda>x. pkey x \<noteq> (u, c)) (cache (connection self)) \<and>
         (cache (connection (snd (insert_or_append self u c e s k))) = cache (connection self) \<or>
          (\<exists>ds. value_col r = Some (dumps (PyList ds)) \<and>
                stored (connection (snd (insert_or_append self u c e s k))) u c =
                  Some (touch (connection self) (ds @ [to_dict e]) r)))"
proof -
  let ?after = "cache (connection (snd (insert_or_append self u c e s k)))"
  have "?after = cache (connection self) \<or>
        (\<exists>ds. value_col r = Some (dumps (PyList ds)) \<and>
              ?after = appended (connection self) u c (ds @ [to_dict e]))"
    using assms by (rule insert_or_append_stored_frame)
  then show ?thesis
  proof
    assume "?after = cache (connection self)"
    then show ?thesis by simp
  next
    assume "\<exists>ds. value_col r = Some (dumps (PyList ds)) \<and>
              ?after = appended (connection self) u c (ds @ [to_dict e])"
    then obtain ds where ds: "value_col r = Some (dumps (PyList ds))"
      and after: "?after = appended (connection self) u c (ds @ [to_dict e])" by blast
    have "stored (connection (snd (insert_or_append self u c e s k))) u c =
            Some (touch (connection self) (ds @ [to_dict e]) r)"
      using assms after stored_appended [of u c "connection self" "ds @ [to_dict e]"]
      by (simp add: stored_def)
    with ds after show ?thesis
      by (auto simp: pkeys_appended others_appended)
  qed
qed

theorem append_branch_deletes_nothing_witness:
  "stored (connection one_record) alice conv_a = Some (hd (cache (connection one_record))) \<and>
   map pkey (cache (connection (snd (insert_or_append one_record alice conv_a reply [] False)))) =
     map pkey (cache (connection one_record)) \<and>
   cache (connection (snd (insert_or_append one_record alice conv_a reply [] False))) =
     [\<lparr>user_id = alice, conversation_id = conv_a,
       value_col = Some (Utf8Json (PyList [PyEntry hello, PyEntry reply])),
       topic_summary = Some ''greeting'', updated_at = Some 2\<rparr>]"
proof -
  note t = append_branch_deletes_nothing [OF one_record_stored, of reply "[]" False]
  from one_record_stored t [THEN conjunct1] one_record_append(2) show ?thesis by blast
qed

text \<open>
  C8. On the append branch of a call that returns normally, the
  \<^verbatim>\<open>topic_summary\<close> of every record is unchanged, the \<^verbatim>\<open>updated_at\<close>
  of the record of the key is the current time, and the records of other keys are not
  touched at all.
\<close>

theorem append_keeps_topic_and_refreshes_time:
  assumes "append_branch self u c" and "fst (insert_or_append self u c e s k) = Inr ()"
  shows "length (cache (connection (snd (insert_or_append self u c e s k)))) =
           length (cache (connection self)) \<and>
         (\<forall>i < length (cache (connection self)).
            topic_summary (cache (connection (snd (insert_or_append self u c e s k))) ! i) =
              topic_summary (cache (connection self) ! i) \<and>
            pkey (cache (connection (snd (insert_or_append self u c e s k))) ! i) =
              pkey (cache (connection self) ! i) \<and>
            (if pkey (cache (connection self) ! i) = (u, c)
             then updated_at (cache (connection (snd (insert_or_append self u c e s k))) ! i) =
                    Some (now (connection self))
             else cache (connection (snd (insert_or_append self u c e s k))) ! i =
                    cache (connection self) ! i))"
proof -
  from append_branch_success [OF assms] obtain r ds where
    "cache (connection (snd (insert_or_append self u c e s k))) =
          appended (connection self) u c (ds @ [to_dict e])" by blast
  then show ?thesis
    by (simp add: appended_def touch_def pkey_def)
qed

theorem append_keeps_topic_and_refreshes_time_witness:
  "append_branch one_record alice conv_a \<and>
   fst (insert_or_append one_record alice conv_a reply [] False) = Inr () \<and>
   length (cache (connection (snd (insert_or_append one_record alice conv_a reply [] False)))) =
     length (cache (connection one_record)) \<and>
   topic_summary (cache (connection (snd (insert_or_append one_record alice conv_a reply [] False))) ! 0) =
     Some ''greeting'' \<and>
   updated_at (cache (connection (snd (insert_or_append one_record alice conv_a reply [] False))) ! 0) =
     Some 2"
proof -
  note t = append_keeps_topic_and_refreshes_time [OF one_record_append_branch one_record_append(1)]
  have 2: "topic_summary (cache (connection (snd (insert_or_append one_record alice conv_a reply [] False))) ! 0) =
     Some ''greeting''"
    by (simp add: one_record_append)
  have 3: "updated_at (cache (connection (snd (insert_or_append one_record alice conv_a reply [] False))) ! 0) =
     Some 2"
    by (simp add: one_record_append)
  from one_record_append_branch one_record_append(1) t [THEN conjunct1] 2 3 show ?thesis by blast
qed

section \<open>Methods without validation\<close>

text \<open>
  C10. As amended: \<^verbatim>\<open>delete\<close> and \<^verbatim>\<open>list\<close> perform no identifier
  validation. Whatever the strings are, neither raises InvalidIdentifier. Strings
  without a NUL character are passed to the one statement that each method sends, and
  the statement works on exactly the rows stored under them: \<^verbatim>\<open>delete\<close> removes
  the rows of the key, \<^verbatim>\<open>list\<close> reports the rows of the user. A string that
  holds a NUL character is refused by the driver with a ValueError before anything is
  sent.
\<close>

theorem delete_and_list_do_not_validate:
  "fst (delete self u c k) \<noteq> Inl (InvalidIdentifier x) \<and>
   fst (list' self u k) \<noteq> Inl (InvalidIdentifier x) \<and>
   (if sendable u \<and> sendable c
    then executed (connection (snd (delete self u c k))) = Suc (executed (connection self)) \<and>
         cache (connection (snd (delete self u c k))) =
           (case fault (connection self) of
              Some d \<Rightarrow> cache (connection self)
            | None \<Rightarrow> filter (\<lambda>r. pkey r \<noteq> (u, c)) (cache (connection self)))
    else delete self u c k = (Inl ValueError, self)) \<and>
   (if sendable u
    then executed (connection (snd (list' self u k))) = Suc (executed (connection self)) \<and>
         fst (list' self u k) =
           (case fault (connection self) of
              Some d \<Rightarrow> Inl (CacheError ''PostgresCache.list'' d)
            | None \<Rightarrow> Inr (listing (cache (connection self)) u))
    else list' self u k = (Inl ValueError, self))"
  by (simp add: delete_full list_eq with_cursor_def sent_frame split: option.splits)

theorem delete_and_list_do_not_validate_witness:
  "sendable ''not-uuid'' \<and> sendable conv_a \<and>
   executed (connection (snd (delete one_record ''not-uuid'' conv_a False))) = 1 \<and>
   cache (connection (snd (delete one_record ''not-uuid'' conv_a False))) =
     cache (connection one_record) \<and>
   fst (list' one_record ''not-uuid'' False) = Inr [] \<and>
   \<not> sendable [CHR 0x00] \<and>
   list' one_record [CHR 0x00] False = (Inl ValueError, one_record)"
proof -
  note t = delete_and_list_do_not_validate [of one_record "''not-uuid''" conv_a False "[]"]
  note t0 = delete_and_list_do_not_validate [of one_record "[CHR 0x00]" conv_a False "[]"]
  have n: "\<not> sendable [CHR 0x00]" by (simp add: sendable_def)
  have a: "alice \<noteq> ''not-uuid''" by (simp add: alice_def)
  have 1: "executed (connection (snd (delete one_record ''not-uuid'' conv_a False))) = 1"
    using t by (simp add: sendable_examples one_record_def)
  have 2: "cache (connection (snd (delete one_record ''not-uuid'' conv_a False))) =
     cache (connection one_record)"
    using t by (simp add: sendable_examples) (simp add: one_record_def pkey_def a)
  have 3: "fst (list' one_record ''not-uuid'' False) = Inr []"
    using t by (simp add: sendable_examples) (simp add: one_record_def listing_def a)
  have 4: "list' one_record [CHR 0x00] False = (Inl ValueError, one_record)"
    using t0 n by simp
  from sendable_examples(4) sendable_examples(2) 1 2 3 n 4 show ?thesis by blast
qed

text \<open>
  The claim as stated says that a malformed identifier matches no rows. A row can be
  stored under one: after \<^verbatim>\<open>insert_or_append\<close> for the user \<^verbatim>\<open>not-uuid\<close>
  with \<^verbatim>\<open>skip_user_id_check\<close> set, \<^verbatim>\<open>list\<close> for that user reports the
  conversation.
\<close>

theorem list_matches_malformed_identifier_counterexample:
  "\<not> check_suid ''not-uuid'' \<and>
   fst (insert_or_append (empty_cache 3) ''not-uuid'' conv_a hello ''greeting'' True) = Inr () \<and>
   fst (list' (snd (insert_or_append (empty_cache 3) ''not-uuid'' conv_a hello ''greeting'' True))
          ''not-uuid'' False) = Inr [(SqlText conv_a, SqlText ''greeting'')]"
proof -
  have 1: "answers_next 4 (connection (empty_cache 3))"
    by (rule quiet_answers) (simp_all add: empty_cache_def)
  have 2: "stored (connection (empty_cache 3)) ''not-uuid'' conv_a = None"
    by (simp add: empty_cache_def stored_def)
  have 4: "overflow (capacity (empty_cache 3))
             (cache (connection (empty_cache 3)) @
              [new_row (connection (empty_cache 3)) ''not-uuid'' conv_a hello ''greeting'']) \<le> bigint_max"
    by (simp add: empty_cache_def overflow_def bigint_max_def)
  note ins = insert_or_append_inserts [OF 1 2 sendable_examples(4) sendable_examples(2)
      sendable_examples(6) 4, of True]
  have f: "fault (connection (snd (insert_or_append (empty_cache 3) ''not-uuid'' conv_a hello ''greeting'' True))) = None"
    by (simp add: insert_or_append_def select_eq insert_eq cleanup_eq Let_def sendable_examples
        empty_cache_def stored_def sent_def with_cursor_def overflow_def)
  show ?thesis
    by (simp add: check_not_uuid list_eq sendable_examples ins f)
       (simp add: empty_cache_def evict_def overflow_def new_row_def listing_def)
qed

section \<open>Quota\<close>

lemma consume_tokens_nonneg:
  assumes "\<forall>s. 0 \<le> available_quota q s"
  shows "\<forall>s. 0 \<le> available_quota (snd (consume_tokens q i out subj)) s"
  using assms
  by (auto simp: consume_tokens_def available_quota_def Let_def split: overdraft_policy.splits)

lemma consume_all_nonneg:
  "\<forall>s. 0 \<le> available_quota q s \<Longrightarrow> \<forall>s. 0 \<le> available_quota (consume_all q calls) s"
proof (induction calls arbitrary: q)
  case Nil
  then show ?case by simp
next
  case (Cons call calls)
  obtain i out subj where call: "call = Consume i out subj" by (cases call)
  from Cons.prems have "\<forall>s. 0 \<le> available_quota (snd (consume_tokens q i out subj)) s"
    by (rule consume_tokens_nonneg)
  then show ?case using Cons.IH call by simp
qed

text \<open>
  C9. For every sequence of \<^verbatim>\<open>consume_tokens\<close> calls on a limiter whose budgets
  are not negative, \<^verbatim>\<open>available_quota\<close> is never negative afterwards. A call
  whose cost \<open>input_tokens + output_tokens\<close> is covered by the remaining budget
  decrements it by exactly the cost; a call whose cost exceeds it clamps the budget at
  zero or fails and leaves it, by the policy of the limiter; the budget of no other
  subject changes.
\<close>

theorem quota_never_negative:
  assumes "\<forall>s. 0 \<le> available_quota q s"
  shows "(\<forall>s. 0 \<le> available_quota (consume_all q calls) s) \<and>
         (i + out \<le> available_quota q subj \<longrightarrow>
            fst (consume_tokens q i out subj) = Inr () \<and>
            available_quota (snd (consume_tokens q i out subj)) subj =
              available_quota q subj - (i + out)) \<and>
         (available_quota q subj < i + out \<longrightarrow>
            (case policy q of
               Clamp \<Rightarrow> fst (consume_tokens q i out subj) = Inr () \<and>
                        available_quota (snd (consume_tokens q i out subj)) subj = 0
             | Fail \<Rightarrow> consume_tokens q i out subj = (Inl QuotaExceeded, q))) \<and>
         (\<forall>s. s \<noteq> subj \<longrightarrow>
            available_quota (snd (consume_tokens q i out subj)) s = available_quota q s)"
  using consume_all_nonneg [OF assms, of calls]
  by (auto simp: consume_tokens_def available_quota_def Let_def split: overdraft_policy.splits)
theorem quota_never_negative_witness:
  "(\<forall>s. 0 \<le> available_quota (example_limiter Clamp) s) \<and>
   (\<forall>s. 0 \<le> available_quota
           (consume_all (example_limiter Clamp) [Consume 3 4 ''u'', Consume 5 5 ''u'']) s) \<and>
   available_quota (snd (consume_tokens (example_limiter Clamp) 3 4 ''u'')) ''u'' = 3 \<and>
   available_quota (consume_all (example_limiter Clamp) [Consume 3 4 ''u'', Consume 5 5 ''u'']) ''u'' = 0 \<and>
   consume_tokens (example_limiter Fail) 5 6 ''u'' = (Inl QuotaExceeded, example_limiter Fail)"
proof -
  have 1: "\<forall>s. 0 \<le> available_quota (example_limiter Clamp) s"
    by (simp add: example_limiter_def available_quota_def)
  note t = quota_never_negative [OF 1, of "[Consume 3 4 ''u'', Consume 5 5 ''u'']" 3 4 "''u''"]
  have 2: "available_quota (snd (consume_tokens (example_limiter Clamp) 3 4 ''u'')) ''u'' = 3"
    by (simp add: example_limiter_def available_quota_def consume_tokens_def)
  have 3: "available_quota (consume_all (example_limiter Clamp) [Consume 3 4 ''u'', Consume 5 5 ''u'']) ''u'' = 0"
    by (simp add: example_limiter_def available_quota_def consume_tokens_def)
  have 4: "consume_tokens (example_limiter Fail) 5 6 ''u'' = (Inl QuotaExceeded, example_limiter Fail)"
    by (simp add: example_limiter_def consume_tokens_def)
  from 1 t [THEN conjunct1] 2 3 4 show ?thesis by blast
qed

section \<open>Eviction and the capacity bound\<close>

lemma oldest_before_rest:
  assumes "d \<in> set (take n (sort_key f rows))" and "r \<in> set (drop n (sort_key f rows))"
  shows "f d \<le> f r"
proof -
  have "sorted (map f (take n (sort_key f rows) @ drop n (sort_key f rows)))"
    by (simp add: sorted_sort_key)
  then have "\<forall>x\<in>set (take n (sort_key f rows)). \<forall>y\<in>set (drop n (sort_key f rows)). f x \<le> f y"
    unfolding map_append sorted_append by auto
  with assms show ?thesis by blast
qed

lemma length_filter_sort: "length (filter P (sort_key f rows)) = length (filter P rows)"
  by (simp add: filter_sort)

lemma length_filter_split:
  "length (filter P xs) = length (filter P (take n xs)) + length (filter P (drop n xs))"
proof -
  have "filter P xs = filter P (take n xs @ drop n xs)" by simp
  then show ?thesis by (simp only: filter_append length_append)
qed

lemma length_without_oldest:
  "length (filter (\<lambda>r. pkey r \<notin> set (map pkey (oldest n rows))) rows) \<le> length rows - n"
proof -
  let ?s = "sort_key asc_key rows"
  let ?P = "\<lambda>r. pkey r \<notin> set (map pkey (oldest n rows))"
  have 1: "length (filter ?P rows) = length (filter ?P ?s)"
    by (simp only: length_filter_sort)
  have 2: "length (filter ?P ?s) = length (filter ?P (take n ?s)) + length (filter ?P (drop n ?s))"
    by (rule length_filter_split)
  have 3: "filter ?P (take n ?s) = []"
    by (auto simp: oldest_def filter_empty_conv)
  have 4: "length (filter ?P (drop n ?s)) \<le> length (drop n ?s)"
    by (rule length_filter_le)
  have 5: "length (drop n ?s) = length rows - n"
    by simp
  from 1 2 3 4 5 show ?thesis by (simp only: list.size add_0)
qed

lemma evict_within_capacity: "int (length (evict cap rows)) \<le> max cap 0"
proof (cases "overflow cap rows > 0")
  case True
  have "length (evict cap rows) \<le> length rows - nat (overflow cap rows)"
    unfolding evict_def using True length_without_oldest [of "nat (overflow cap rows)" rows]
    by (simp only: if_True)
  with True show ?thesis by (simp add: overflow_def)
next
  case False
  then show ?thesis by (simp add: evict_def overflow_def)
qed

lemma insert_branch_success:
  assumes "insert_branch self u c" and "fst (insert_or_append self u c e s k) = Inr ()"
  shows "stored (connection self) u c = None"
proof (rule ccontr)
  assume "stored (connection self) u c \<noteq> None"
  then obtain r ds where "stored (connection self) u c = Some r"
    and "value_col r = Some (Utf8Json (PyList ds))" and "ds \<noteq> []"
    using insert_or_append_success [OF assms(2)] by auto
  moreover from insert_or_append_success [OF assms(2)]
  have "fault (connection self) = None" "sendable u" "sendable c" by simp_all
  ultimately have "\<not> insert_branch self u c"
    by (simp add: insert_branch_def select_eq cell_of_def)
  with assms(1) show False by simp
qed

lemma inserting_call:
  assumes "insert_branch self u c" and "fst (insert_or_append self u c e s k) = Inr ()"
  shows "cache (connection (snd (insert_or_append self u c e s k))) =
           evict (capacity self) (cache (connection self) @ [new_row (connection self) u c e s])"
    and "0 < overflow (capacity self) (cache (connection self) @ [new_row (connection self) u c e s])
         \<longrightarrow> overflow (capacity self) (cache (connection self) @ [new_row (connection self) u c e s])
               \<le> bigint_max"
proof -
  have st: "stored (connection self) u c = None"
    using assms by (rule insert_branch_success)
  with insert_or_append_success [OF assms(2)]
  show "cache (connection (snd (insert_or_append self u c e s k))) =
           evict (capacity self) (cache (connection self) @ [new_row (connection self) u c e s])"
    by auto
  have nk: "(u, c) \<notin> set (map pkey (cache (connection self)))"
    using st by (simp add: stored_None_iff)
  from insert_or_append_success [OF assms(2)]
  have "fault (connection self) = None" "sendable u" "sendable c" by simp_all
  with assms(2) st nk
  show "0 < overflow (capacity self) (cache (connection self) @ [new_row (connection self) u c e s])
         \<longrightarrow> overflow (capacity self) (cache (connection self) @ [new_row (connection self) u c e s])
               \<le> bigint_max"
    by (auto simp: insert_or_append_def select_eq insert_eq cleanup_eq Let_def sent_frame
        new_row_def sent_cache_update split: option.splits if_splits)
qed

lemma insert_or_append_down:
  assumes "fault (connection self) = Some d"
  shows "cache (connection (snd (insert_or_append self u c e s k))) = cache (connection self)"
  using assms
  by (simp add: insert_or_append_def select_eq Let_def with_cursor_def sent_frame)

lemma call_bound:
  assumes "fst (insert_or_append self u c e s k) = Inr () \<or>
           cache (connection (snd (insert_or_append self u c e s k))) = cache (connection self)"
    and "int (length (cache (connection self))) \<le> max (capacity self) 0"
  shows "int (length (cache (connection (snd (insert_or_append self u c e s k))))) \<le>
           max (capacity self) 0"
  using assms(1)
proof
  assume "fst (insert_or_append self u c e s k) = Inr ()"
  from insert_or_append_success [OF this] assms(2)
    evict_within_capacity [of "capacity self" "cache (connection self) @ [new_row (connection self) u c e s]"]
  show ?thesis
    by (auto simp: appended_def)
next
  assume "cache (connection (snd (insert_or_append self u c e s k))) = cache (connection self)"
  with assms(2) show ?thesis by simp
qed

lemma serve_capacity: "capacity (serve self req) = capacity self"
  by (cases req) (simp add: insert_or_append_frame environment_def)

lemma serve_bound:
  assumes "int (count_records self) \<le> max (capacity self) 0"
    and "outcome self req = Inr () \<or> cache (connection (serve self req)) = cache (connection self)"
  shows "int (count_records (serve self req)) \<le> max (capacity self) 0"
proof (cases req)
  case (Request t f fs u c e s k)
  let ?self0 = "environment self t f fs"
  have 1: "fst (insert_or_append ?self0 u c e s k) = Inr () \<or>
           cache (connection (snd (insert_or_append ?self0 u c e s k))) = cache (connection ?self0)"
    using assms(2) Request by (simp add: environment_def)
  have 2: "int (length (cache (connection ?self0))) \<le> max (capacity ?self0) 0"
    using assms(1) by (simp add: environment_def count_records_def)
  from call_bound [OF 1 2] Request show ?thesis
    by (simp add: count_records_def environment_def)
qed

lemma trace_bound:
  "int (count_records self) \<le> max (capacity self) 0 \<Longrightarrow> uninterrupted self reqs \<Longrightarrow>
   list_all (\<lambda>st. int (count_records st) \<le> max (capacity self) 0) (trace self reqs)"
proof (induction reqs arbitrary: self)
  case Nil
  then show ?case by simp
next
  case (Cons req reqs)
  from Cons.prems have 1: "int (count_records (serve self req)) \<le> max (capacity self) 0"
    by (intro serve_bound) simp_all
  then have 2: "int (count_records (serve self req)) \<le> max (capacity (serve self req)) 0"
    by (simp add: serve_capacity)
  from Cons.prems have 3: "uninterrupted (serve self req) reqs" by simp
  from Cons.IH [OF 2 3] 1 show ?case
    by (simp add: serve_capacity)
qed

lemma distinct_keys_sort:
  assumes "distinct (map pkey rows)"
  shows "distinct (map pkey (sort_key f rows))"
proof -
  from assms have "distinct rows" and "inj_on pkey (set rows)"
    by (simp_all add: distinct_map)
  then show ?thesis by (simp add: distinct_map)
qed

lemma evict_exact:
  assumes "distinct (map pkey rows)" and "0 < overflow cap rows"
  shows "evict cap rows = filter (\<lambda>r. r \<notin> set (oldest (nat (overflow cap rows)) rows)) rows"
    and "length rows - length (evict cap rows) = min (nat (overflow cap rows)) (length rows)"
    and "\<forall>d\<in>set (oldest (nat (overflow cap rows)) rows). \<forall>r\<in>set (evict cap rows). asc_key d \<le> asc_key r"
proof -
  let ?n = "nat (overflow cap rows)"
  let ?s = "sort_key asc_key rows"
  from assms(1) have inj: "inj_on pkey (set rows)" and dist: "distinct rows"
    by (simp_all add: distinct_map)
  have sub: "set (oldest ?n rows) \<subseteq> set rows"
    unfolding oldest_def using set_take_subset [of ?n ?s] by simp
  have key_iff: "pkey r \<in> set (map pkey (oldest ?n rows)) \<longleftrightarrow> r \<in> set (oldest ?n rows)"
    if "r \<in> set rows" for r
    using that sub inj by (auto simp: inj_on_def)
  then show eq: "evict cap rows = filter (\<lambda>r. r \<notin> set (oldest ?n rows)) rows"
    using assms(2) by (auto simp: evict_def intro!: filter_cong)
  have ds: "distinct ?s" using dist by simp
  have disj: "set (take ?n ?s) \<inter> set (drop ?n ?s) = {}"
    using ds distinct_append [of "take ?n ?s" "drop ?n ?s"] by simp
  let ?Q = "\<lambda>r. r \<notin> set (take ?n ?s)"
  have 1: "length (evict cap rows) = length (filter ?Q ?s)"
    unfolding eq oldest_def by (simp only: length_filter_sort)
  have 2: "length (filter ?Q ?s) = length (filter ?Q (take ?n ?s)) + length (filter ?Q (drop ?n ?s))"
    by (rule length_filter_split)
  have 3: "filter ?Q (take ?n ?s) = []"
    by (simp add: filter_empty_conv)
  have 4: "filter ?Q (drop ?n ?s) = drop ?n ?s"
    using disj by (auto simp: filter_id_conv)
  have 5: "length (drop ?n ?s) = length rows - ?n"
    by simp
  from 1 2 3 4 5 have len: "length (evict cap rows) = length rows - ?n"
    by (simp only: list.size add_0)
  then show "length rows - length (evict cap rows) = min ?n (length rows)" by simp
  show "\<forall>d\<in>set (oldest ?n rows). \<forall>r\<in>set (evict cap rows). asc_key d \<le> asc_key r"
  proof (intro ballI)
    fix d r assume d: "d \<in> set (oldest ?n rows)" and r: "r \<in> set (evict cap rows)"
    from r eq have "r \<in> set rows" "r \<notin> set (take ?n ?s)" by (auto simp: oldest_def)
    moreover have "set ?s = set (take ?n ?s) \<union> set (drop ?n ?s)"
      by (metis append_take_drop_id set_append)
    ultimately have "r \<in> set (drop ?n ?s)" by simp
    with d show "asc_key d \<le> asc_key r"
      unfolding oldest_def by (rule oldest_before_rest)
  qed
qed

lemma inserted_keys_distinct:
  assumes "distinct (map pkey (cache cursor))" and "stored cursor u c = None"
  shows "distinct (map pkey (cache cursor @ [new_row cursor u c e s]))"
  using assms by (simp add: stored_None_iff new_row_def pkey_def)

lemma conv_a_neq_b: "conv_a \<noteq> conv_b"
  by (simp add: conv_a_def conv_b_def)

lemma full_cache_quiet: "answers_next n (connection full_cache)"
  by (rule quiet_answers) (simp_all add: full_cache_def)

lemma full_cache_insert:
  "fst (insert_or_append full_cache alice conv_b reply [] False) = Inr ()"
  "cache (connection (snd (insert_or_append full_cache alice conv_b reply [] False))) =
     [\<lparr>user_id = alice, conversation_id = conv_b,
       value_col = Some (Utf8Json (PyList [PyEntry reply])),
       topic_summary = Some [], updated_at = Some 2\<rparr>]"
proof -
  have st: "stored (connection full_cache) alice conv_b = None"
    by (simp add: full_cache_def stored_def pkey_def conv_a_neq_b)
  have o: "overflow (capacity full_cache)
             (cache (connection full_cache) @ [new_row (connection full_cache) alice conv_b reply []])
           \<le> bigint_max"
    by (simp add: full_cache_def overflow_def bigint_max_def)
  note ins = insert_or_append_inserts [OF full_cache_quiet st sendable_examples(1)
      sendable_examples(3) sendable_examples(5) o, of False]
  show "fst (insert_or_append full_cache alice conv_b reply [] False) = Inr ()"
    by (rule ins(1))
  show "cache (connection (snd (insert_or_append full_cache alice conv_b reply [] False))) =
     [\<lparr>user_id = alice, conversation_id = conv_b,
       value_col = Some (Utf8Json (PyList [PyEntry reply])),
       topic_summary = Some [], updated_at = Some 2\<rparr>]"
    unfolding ins(2)
    by (simp add: full_cache_def evict_def overflow_def new_row_def oldest_def
        asc_key_def pkey_def dumps_def to_dict_def conv_a_neq_b conv_a_neq_b [symmetric])
qed

lemma full_cache_insert_branch: "insert_branch full_cache alice conv_b"
  by (simp add: insert_branch_def select_eq sendable_examples)
     (simp add: full_cache_def stored_def pkey_def conv_a_neq_b)

text \<open>
  C1. As amended: for every capacity \<open>K\<close> and every sequence of
  \<^verbatim>\<open>insert_or_append\<close> calls on a cache that starts with at most \<open>max K 0\<close>
  records (a new, empty table in particular), in which each call returns normally or
  leaves the table as it was, the table holds at most \<open>max K 0\<close> records after each
  call, whatever the clock and the server do. Whenever the insert branch runs in a call
  that returns normally, \<^verbatim>\<open>_cleanup\<close> counts the records \<open>N\<close>, the new one
  included, computes the overflow \<open>N - K\<close> and, if it is positive, deletes the first
  \<open>N - K\<close> records in the order of \<^verbatim>\<open>updated_at\<close>, across all users: that is
  \<open>min (N - K) N\<close> records, all \<open>N\<close> of them when \<open>K\<close> is negative, and every
  deleted record is at least as old as every record that stays. The call returns normally
  when no record is stored for the key, the server answers its statements, the strings
  hold no NUL character and the overflow is within the range of a \<^verbatim>\<open>bigint\<close>.
\<close>

theorem capacity_bound_and_eviction:
  "(int (count_records start) \<le> max (capacity start) 0 \<and> uninterrupted start reqs \<longrightarrow>
      list_all (\<lambda>st. int (count_records st) \<le> max (capacity start) 0) (trace start reqs)) \<and>
   (insert_branch self u c \<and> fst (insert_or_append self u c e s k) = Inr () \<and>
    distinct (map pkey (cache (connection self))) \<longrightarrow>
      (let rows = cache (connection self) @ [new_row (connection self) u c e s];
           n = overflow (capacity self) rows;
           after = cache (connection (snd (insert_or_append self u c e s k)))
       in (n \<le> 0 \<longrightarrow> after = rows) \<and>
          (0 < n \<longrightarrow>
             n \<le> bigint_max \<and>
             after = filter (\<lambda>r. r \<notin> set (oldest (nat n) rows)) rows \<and>
             length rows - length after = min (nat n) (length rows) \<and>
             (\<forall>d\<in>set (oldest (nat n) rows). \<forall>r\<in>set after. asc_key d \<le> asc_key r)))) \<and>
   (answers_next 4 (connection self) \<and> stored (connection self) u c = None \<and>
    sendable u \<and> sendable c \<and> sendable s \<and>
    overflow (capacity self) (cache (connection self) @ [new_row (connection self) u c e s])
      \<le> bigint_max \<longrightarrow>
      insert_branch self u c \<and> fst (insert_or_append self u c e s k) = Inr ())"
proof (intro conjI impI)
  assume "int (count_records start) \<le> max (capacity start) 0 \<and> uninterrupted start reqs"
  then show "list_all (\<lambda>st. int (count_records st) \<le> max (capacity start) 0) (trace start reqs)"
    by (simp add: trace_bound)
next
  assume a: "insert_branch self u c \<and> fst (insert_or_append self u c e s k) = Inr () \<and>
    distinct (map pkey (cache (connection self)))"
  let ?rows = "cache (connection self) @ [new_row (connection self) u c e s]"
  from a have br: "insert_branch self u c" and ok: "fst (insert_or_append self u c e s k) = Inr ()"
    by simp_all
  have st: "stored (connection self) u c = None"
    using br ok by (rule insert_branch_success)
  from a have "distinct (map pkey (cache (connection self)))"
    by simp
  then have d: "distinct (map pkey ?rows)"
    using st by (rule inserted_keys_distinct)
  have after: "cache (connection (snd (insert_or_append self u c e s k))) = evict (capacity self) ?rows"
    using br ok by (rule inserting_call(1))
  have lim: "0 < overflow (capacity self) ?rows \<longrightarrow> overflow (capacity self) ?rows \<le> bigint_max"
    using br ok by (rule inserting_call(2))
  have small: "overflow (capacity self) ?rows \<le> 0 \<longrightarrow> evict (capacity self) ?rows = ?rows"
    by (simp add: evict_def)
  have big: "0 < overflow (capacity self) ?rows \<longrightarrow>
      evict (capacity self) ?rows =
        filter (\<lambda>r. r \<notin> set (oldest (nat (overflow (capacity self) ?rows)) ?rows)) ?rows \<and>
      length ?rows - length (evict (capacity self) ?rows) =
        min (nat (overflow (capacity self) ?rows)) (length ?rows) \<and>
      (\<forall>d\<in>set (oldest (nat (overflow (capacity self) ?rows)) ?rows).
          \<forall>r\<in>set (evict (capacity self) ?rows). asc_key d \<le> asc_key r)"
    using evict_exact [OF d] by blast
  show "let rows = ?rows;
           n = overflow (capacity self) rows;
           after = cache (connection (snd (insert_or_append self u c e s k)))
       in (n \<le> 0 \<longrightarrow> after = rows) \<and>
          (0 < n \<longrightarrow>
             n \<le> bigint_max \<and>
             after = filter (\<lambda>r. r \<notin> set (oldest (nat n) rows)) rows \<and>
             length rows - length after = min (nat n) (length rows) \<and>
             (\<forall>d\<in>set (oldest (nat n) rows). \<forall>r\<in>set after. asc_key d \<le> asc_key r))"
    unfolding Let_def after using small big lim by blast
next
  assume a: "answers_next 4 (connection self) \<and> stored (connection self) u c = None \<and>
    sendable u \<and> sendable c \<and> sendable s \<and>
    overflow (capacity self) (cache (connection self) @ [new_row (connection self) u c e s])
      \<le> bigint_max"
  then show "insert_branch self u c"
    by (simp add: insert_branch_def select_eq numeral_eq_Suc)
  from a show "fst (insert_or_append self u c e s k) = Inr ()"
    by (intro insert_or_append_inserts(1)) simp_all
qed

theorem capacity_bound_and_eviction_witness:
  "int (count_records (empty_cache 1)) \<le> max (capacity (empty_cache 1)) 0 \<and>
   uninterrupted (empty_cache 1)
     [Request 1 None [] alice conv_a hello [] False,
      Request 2 (Some OperationalError) [] alice conv_b reply [] False] \<and>
   list_all (\<lambda>st. int (count_records st) \<le> max (capacity (empty_cache 1)) 0)
     (trace (empty_cache 1)
        [Request 1 None [] alice conv_a hello [] False,
         Request 2 (Some OperationalError) [] alice conv_b reply [] False]) \<and>
   insert_branch full_cache alice conv_b \<and>
   distinct (map pkey (cache (connection full_cache))) \<and>
   overflow (capacity full_cache)
     (cache (connection full_cache) @ [new_row (connection full_cache) alice conv_b reply []]) = 1 \<and>
   fst (insert_or_append full_cache alice conv_b reply [] False) = Inr () \<and>
   cache (connection (snd (insert_or_append full_cache alice conv_b reply [] False))) =
     [\<lparr>user_id = alice, conversation_id = conv_b,
       value_col = Some (Utf8Json (PyList [PyEntry reply])),
       topic_summary = Some [], updated_at = Some 2\<rparr>]"
proof -
  note t = capacity_bound_and_eviction [of "empty_cache 1"
      "[Request 1 None [] alice conv_a hello [] False,
        Request 2 (Some OperationalError) [] alice conv_b reply [] False]"
      full_cache alice conv_b reply "[]" False]
  have 1: "int (count_records (empty_cache 1)) \<le> max (capacity (empty_cache 1)) 0"
    by (simp add: empty_cache_def count_records_def)
  have q: "answers_next 4 (connection (environment (empty_cache 1) 1 None []))"
    by (rule quiet_answers) (simp_all add: environment_def empty_cache_def)
  have st: "stored (connection (environment (empty_cache 1) 1 None [])) alice conv_a = None"
    by (simp add: environment_def empty_cache_def stored_def)
  have o: "overflow (capacity (environment (empty_cache 1) 1 None []))
             (cache (connection (environment (empty_cache 1) 1 None [])) @
              [new_row (connection (environment (empty_cache 1) 1 None [])) alice conv_a hello []])
           \<le> bigint_max"
    by (simp add: environment_def empty_cache_def overflow_def bigint_max_def)
  have first: "fst (insert_or_append (environment (empty_cache 1) 1 None []) alice conv_a hello [] False) = Inr ()"
    by (rule insert_or_append_inserts(1) [OF q st sendable_examples(1) sendable_examples(2)
          sendable_examples(5) o])
  have second: "cache (connection (serve (serve (empty_cache 1) (Request 1 None [] alice conv_a hello [] False))
                  (Request 2 (Some OperationalError) [] alice conv_b reply [] False))) =
                cache (connection (serve (empty_cache 1) (Request 1 None [] alice conv_a hello [] False)))"
    by (simp add: insert_or_append_down environment_def)
  have 2: "uninterrupted (empty_cache 1)
     [Request 1 None [] alice conv_a hello [] False,
      Request 2 (Some OperationalError) [] alice conv_b reply [] False]"
    using first second by simp
  have 3: "distinct (map pkey (cache (connection full_cache)))" by (simp add: full_cache_def)
  have 5: "overflow (capacity full_cache)
     (cache (connection full_cache) @ [new_row (connection full_cache) alice conv_b reply []]) = 1"
    by (simp add: full_cache_def overflow_def)
  from t 1 2 have 6: "list_all (\<lambda>st. int (count_records st) \<le> max (capacity (empty_cache 1)) 0)
     (trace (empty_cache 1)
        [Request 1 None [] alice conv_a hello [] False,
         Request 2 (Some OperationalError) [] alice conv_b reply [] False])"
    by blast
  from 1 2 6 full_cache_insert_branch 3 5 full_cache_insert show ?thesis by blast
qed

text \<open>
  The claim as stated says that exactly \<open>N - K\<close> records are deleted. With the
  capacity \<open>-1\<close> and one record the overflow is 2, and one record is deleted. It also
  says that the bound holds after each call: when the server fails between the INSERT and
  the count of \<^verbatim>\<open>_cleanup\<close>, the inserted row stays (the connection commits each
  statement), and a cache of capacity one holds two records.
\<close>

theorem eviction_negative_capacity_counterexample:
  "0 < overflow (capacity (empty_cache (- 1)))
         (cache (connection (empty_cache (- 1))) @
          [new_row (connection (empty_cache (- 1))) alice conv_a hello []]) \<and>
   overflow (capacity (empty_cache (- 1)))
         (cache (connection (empty_cache (- 1))) @
          [new_row (connection (empty_cache (- 1))) alice conv_a hello []]) = 2 \<and>
   fst (insert_or_append (empty_cache (- 1)) alice conv_a hello [] False) = Inr () \<and>
   length (cache (connection (empty_cache (- 1))) @
           [new_row (connection (empty_cache (- 1))) alice conv_a hello []]) -
   length (cache (connection (snd (insert_or_append (empty_cache (- 1)) alice conv_a hello [] False)))) = 1 \<and>
   capacity full_cache = 1 \<and>
   fst (insert_or_append (environment full_cache 2 None [None, Some OperationalError])
          alice conv_b reply [] False) =
     Inl (CacheError ''PostgresCache.insert_or_append'' OperationalError) \<and>
   count_records (snd (insert_or_append (environment full_cache 2 None [None, Some OperationalError])
                         alice conv_b reply [] False)) = 2"
proof -
  have cut: "insert_or_append (environment full_cache 2 None [None, Some OperationalError])
          alice conv_b reply [] False =
     (Inl (CacheError ''PostgresCache.insert_or_append'' OperationalError),
      \<lparr>capacity = 1,
       connection = \<lparr>cache = [\<lparr>user_id = alice, conversation_id = conv_a,
                                  value_col = Some (Utf8Json (PyList [PyEntry hello])),
                                  topic_summary = Some ''greeting'', updated_at = Some 1\<rparr>,
                                \<lparr>user_id = alice, conversation_id = conv_b,
                                  value_col = Some (Utf8Json (PyList [PyEntry reply])),
                                  topic_summary = Some [], updated_at = Some 2\<rparr>],
                      now = 2, fault = Some OperationalError, later = [], executed = 3\<rparr>\<rparr>)"
    by (simp add: insert_or_append_def select_eq insert_eq cleanup_eq Let_def sendable_examples
        environment_def full_cache_def stored_def sent_def with_cursor_def pkey_def
        dumps_def to_dict_def conv_a_neq_b conv_a_neq_b [symmetric] numeral_3_eq_3)
  have q: "answers_next 4 (connection (empty_cache (- 1)))"
    by (rule quiet_answers) (simp_all add: empty_cache_def)
  have st: "stored (connection (empty_cache (- 1))) alice conv_a = None"
    by (simp add: empty_cache_def stored_def)
  have o: "overflow (capacity (empty_cache (- 1)))
         (cache (connection (empty_cache (- 1))) @
          [new_row (connection (empty_cache (- 1))) alice conv_a hello []]) \<le> bigint_max"
    by (simp add: empty_cache_def overflow_def bigint_max_def)
  note ins = insert_or_append_inserts [OF q st sendable_examples(1) sendable_examples(2)
      sendable_examples(5) o, of False]
  show ?thesis
    unfolding ins(2) cut
    by (simp add: ins(1) count_records_def)
       (simp add: empty_cache_def full_cache_def evict_def overflow_def new_row_def oldest_def)
qed

section \<open>The order of the entries\<close>

lemma from_dicts_to_dict: "from_dicts (map to_dict es) = Inr es"
  by (induction es) (simp_all add: to_dict_def)

lemma get_holds:
  assumes "holds self u c es" and "construct_key u c k = Inr ()"
  shows "fst (get self u c k) =
           (case fault (connection self) of
              None \<Rightarrow> Inr es
            | Some d \<Rightarrow> Inl (CacheError ''PostgresCache.get'' d))"
proof -
  from assms(1) obtain r where r: "stored (connection self) u c = Some r"
    and v: "value_col r = Some (dumps (PyList (map to_dict es)))"
    and s: "sendable u" "sendable c"
    by (auto simp: holds_def)
  have "answer r = Inr es"
    using v by (simp add: answer_def cell_of_def dumps_def from_dicts_to_dict)
  with r s assms(2) show ?thesis by (simp add: get_eq split: option.splits)
qed

lemma find_filter_append_new:
  assumes "find P xs = None" and "find P (filter Q (xs @ [x])) \<noteq> None"
  shows "find P (filter Q (xs @ [x])) = Some x"
  using assms by (induction xs) (auto split: if_splits)

lemma evict_is_filter: "\<exists>Q. evict cap rows = filter Q rows"
proof (cases "0 < overflow cap rows")
  case True
  then show ?thesis unfolding evict_def by (simp only: if_True) blast
next
  case False
  then have "evict cap rows = filter (\<lambda>r. True) rows" by (simp add: evict_def)
  then show ?thesis by blast
qed

lemma stored_after_evict:
  assumes "find P rows = None" and "find P (evict cap (rows @ [x])) \<noteq> None"
  shows "find P (evict cap (rows @ [x])) = Some x"
proof -
  obtain Q where Q: "evict cap (rows @ [x]) = filter Q (rows @ [x])"
    using evict_is_filter by blast
  from assms show ?thesis
    unfolding Q by (rule find_filter_append_new)
qed

lemma first_call_holds:
  assumes "insert_branch self u c" and "fst (insert_or_append self u c e s k) = Inr ()"
    and "stored (connection (snd (insert_or_append self u c e s k))) u c \<noteq> None"
  shows "holds (snd (insert_or_append self u c e s k)) u c [e]"
proof -
  have st: "stored (connection self) u c = None"
    using assms(1,2) by (rule insert_branch_success)
  from insert_or_append_success [OF assms(2)] have s: "sendable u" "sendable c"
    by simp_all
  let ?after = "snd (insert_or_append self u c e s k)"
  have c: "cache (connection ?after) =
             evict (capacity self) (cache (connection self) @ [new_row (connection self) u c e s])"
    using assms(1,2) by (rule inserting_call(1))
  have "stored (connection ?after) u c = Some (new_row (connection self) u c e s)"
    using st assms(3) unfolding stored_def c by (rule stored_after_evict)
  with s show ?thesis
    by (simp add: holds_def new_row_def)
qed

lemma holds_environment: "holds (environment self t f fs) u c es = holds self u c es"
  by (simp add: holds_def environment_def stored_def)

lemma append_holds:
  assumes "holds self u c es" and "fst (insert_or_append self u c e s k) = Inr ()"
  shows "holds (snd (insert_or_append self u c e s k)) u c (es @ [e])"
proof -
  from assms(1) obtain r where r: "stored (connection self) u c = Some r"
    and v: "value_col r = Some (Utf8Json (PyList (map to_dict es)))"
    and s: "sendable u" "sendable c"
    by (auto simp: holds_def dumps_def)
  let ?after = "snd (insert_or_append self u c e s k)"
  from insert_or_append_success [OF assms(2)] r v
  have c: "cache (connection ?after) = appended (connection self) u c (map to_dict es @ [to_dict e])"
    by auto
  have "stored (connection ?after) u c =
          Some (touch (connection self) (map to_dict es @ [to_dict e]) r)"
    unfolding stored_def c using r
    by (simp add: appended_def stored_def find_map_same_key pkey_touch)
  with s show ?thesis
    by (simp add: holds_def touch_def)
qed

lemma append_all_holds:
  "holds self u c es \<Longrightarrow> append_all self u c turns = Some final \<Longrightarrow>
   holds final u c (es @ map entry_of turns)"
proof (induction turns arbitrary: self es)
  case Nil
  then show ?case by simp
next
  case (Cons turn turns)
  obtain t e s k where turn: "turn = Turn t e s k" by (cases turn)
  let ?self0 = "environment self t (fault (connection self)) (later (connection self))"
  from Cons.prems(2) turn
  have ok: "fst (insert_or_append ?self0 u c e s k) = Inr ()"
    and rest: "append_all (snd (insert_or_append ?self0 u c e s k)) u c turns = Some final"
    by (auto simp: Let_def split: if_splits)
  from Cons.prems(1) have "holds ?self0 u c es"
    by (simp only: holds_environment)
  then have "holds (snd (insert_or_append ?self0 u c e s k)) u c (es @ [e])"
    using ok by (rule append_holds)
  from Cons.IH [OF this rest] turn show ?case by simp
qed

lemma empty_cache_insert_branch: "sendable u \<Longrightarrow> sendable c \<Longrightarrow> insert_branch (empty_cache cap) u c"
  by (simp add: insert_branch_def select_eq empty_cache_def stored_def)

lemma empty_cache_first_call:
  "insert_or_append (empty_cache 3) alice conv_a hello [] False =
     (Inr (),
      \<lparr>capacity = 3,
       connection = \<lparr>cache = [\<lparr>user_id = alice, conversation_id = conv_a,
                                  value_col = Some (Utf8Json (PyList [PyEntry hello])),
                                  topic_summary = Some [], updated_at = Some 0\<rparr>],
                      now = 0, fault = None, later = [], executed = 3\<rparr>\<rparr>)"
  by (simp add: insert_or_append_def select_eq insert_eq cleanup_eq Let_def sendable_examples
      empty_cache_def stored_def sent_def with_cursor_def overflow_def evict_def
      dumps_def to_dict_def numeral_3_eq_3)

lemma second_call:
  "append_all (snd (insert_or_append (empty_cache 3) alice conv_a hello [] False)) alice conv_a
     [Turn 5 reply [] False] =
   Some \<lparr>capacity = 3,
         connection = \<lparr>cache = [\<lparr>user_id = alice, conversation_id = conv_a,
                                    value_col = Some (Utf8Json (PyList [PyEntry hello, PyEntry reply])),
                                    topic_summary = Some [], updated_at = Some 5\<rparr>],
                        now = 5, fault = None, later = [], executed = 5\<rparr>\<rparr>"
  unfolding empty_cache_first_call
  by (simp add: environment_def append_branch_def insert_or_append_def select_eq update_eq
      sendable_examples Let_def stored_def pkey_def cell_of_def with_cursor_def to_dict_def
      dumps_def sent_def)

text \<open>
  C2. As amended: for every key whose identifiers pass the validation of
  \<^verbatim>\<open>get\<close>, and every sequence of \<open>N\<close> calls of
  \<^verbatim>\<open>insert_or_append\<close> for that key that return normally, the first taking the
  insert branch and leaving its record in the table, the others taking the append branch,
  a subsequent \<^verbatim>\<open>get\<close> for the key returns exactly those \<open>N\<close> entries in the
  order in which they were inserted. (With two calls or more the record of the first call
  is in the table, since the second call takes the append branch. A \<^verbatim>\<open>get\<close> that
  the server fails raises the CacheError of C5.)
\<close>

theorem get_returns_entries_in_insertion_order:
  assumes "construct_key u c k = Inr ()"
    and "insert_branch self u c"
    and "fst (insert_or_append self u c e s k1) = Inr ()"
    and "stored (connection (snd (insert_or_append self u c e s k1))) u c \<noteq> None"
    and "append_all (snd (insert_or_append self u c e s k1)) u c turns = Some final"
  shows "fst (get final u c k) =
           (case fault (connection final) of
              None \<Rightarrow> Inr (e # map entry_of turns)
            | Some d \<Rightarrow> Inl (CacheError ''PostgresCache.get'' d))"
proof -
  have "holds (snd (insert_or_append self u c e s k1)) u c [e]"
    using assms(2,3,4) by (rule first_call_holds)
  then have "holds final u c ([e] @ map entry_of turns)"
    using assms(5) by (rule append_all_holds)
  then show ?thesis
    using assms(1) get_holds by simp
qed

theorem get_returns_entries_in_insertion_order_witness:
  "construct_key alice conv_a False = Inr () \<and>
   insert_branch (empty_cache 3) alice conv_a \<and>
   fst (insert_or_append (empty_cache 3) alice conv_a hello [] False) = Inr () \<and>
   stored (connection (snd (insert_or_append (empty_cache 3) alice conv_a hello [] False)))
     alice conv_a \<noteq> None \<and>
   append_all (snd (insert_or_append (empty_cache 3) alice conv_a hello [] False)) alice conv_a
     [Turn 5 reply [] False] \<noteq> None \<and>
   fault (connection (the (append_all (snd (insert_or_append (empty_cache 3) alice conv_a hello [] False))
                    alice conv_a [Turn 5 reply [] False]))) = None \<and>
   fst (get (the (append_all (snd (insert_or_append (empty_cache 3) alice conv_a hello [] False))
                    alice conv_a [Turn 5 reply [] False]))
          alice conv_a False) = Inr [hello, reply]"
proof -
  have 1: "construct_key alice conv_a False = Inr ()"
    by (simp add: construct_key_def check_alice check_conv_a)
  have 2: "insert_branch (empty_cache 3) alice conv_a"
    by (rule empty_cache_insert_branch) (rule sendable_examples)+
  have 3: "fst (insert_or_append (empty_cache 3) alice conv_a hello [] False) = Inr ()"
    by (simp add: empty_cache_first_call)
  have 4: "stored (connection (snd (insert_or_append (empty_cache 3) alice conv_a hello [] False)))
     alice conv_a \<noteq> None"
    by (simp add: empty_cache_first_call stored_def pkey_def)
  have 5: "append_all (snd (insert_or_append (empty_cache 3) alice conv_a hello [] False)) alice conv_a
     [Turn 5 reply [] False] =
     Some (the (append_all (snd (insert_or_append (empty_cache 3) alice conv_a hello [] False))
                    alice conv_a [Turn 5 reply [] False]))"
    by (simp only: second_call option.sel)
  have 8: "fault (connection (the (append_all (snd (insert_or_append (empty_cache 3) alice conv_a hello [] False))
                    alice conv_a [Turn 5 reply [] False]))) = None"
    by (simp only: second_call option.sel) simp
  have 6: "fst (get (the (append_all (snd (insert_or_append (empty_cache 3) alice conv_a hello [] False))
                    alice conv_a [Turn 5 reply [] False]))
          alice conv_a False) = Inr [hello, reply]"
    using get_returns_entries_in_insertion_order [OF 1 2 3 4 5] 8 by simp
  have 7: "append_all (snd (insert_or_append (empty_cache 3) alice conv_a hello [] False)) alice conv_a
     [Turn 5 reply [] False] \<noteq> None"
    by (simp only: second_call) simp
  from 1 2 3 4 7 8 6 show ?thesis by blast
qed

text \<open>
  The claim as stated fails for a single call on a cache of capacity zero, where the
  record is evicted by the call that inserts it and \<^verbatim>\<open>get\<close> returns the empty
  sequence; and for a key that is not a UUID, which \<^verbatim>\<open>insert_or_append\<close>
  stores and \<^verbatim>\<open>get\<close> rejects.
\<close>

theorem get_after_insert_counterexample:
  "construct_key alice conv_a False = Inr () \<and>
   insert_branch (empty_cache 0) alice conv_a \<and>
   fst (insert_or_append (empty_cache 0) alice conv_a hello [] False) = Inr () \<and>
   fst (get (snd (insert_or_append (empty_cache 0) alice conv_a hello [] False)) alice conv_a False) =
     Inr [] \<and>
   insert_branch (empty_cache 3) ''not-uuid'' conv_a \<and>
   fst (insert_or_append (empty_cache 3) ''not-uuid'' conv_a hello [] False) = Inr () \<and>
   fst (get (snd (insert_or_append (empty_cache 3) ''not-uuid'' conv_a hello [] False))
          ''not-uuid'' conv_a False) = Inl (InvalidIdentifier ''not-uuid'')"
proof -
  have 1: "construct_key alice conv_a False = Inr ()"
    by (simp add: construct_key_def check_alice check_conv_a)
  have 2: "insert_or_append (empty_cache 0) alice conv_a hello [] False =
     (Inr (), \<lparr>capacity = 0,
               connection = \<lparr>cache = [], now = 0, fault = None, later = [], executed = 4\<rparr>\<rparr>)"
    by (simp add: insert_or_append_def select_eq insert_eq cleanup_eq Let_def sendable_examples
        empty_cache_def stored_def sent_def with_cursor_def overflow_def evict_def
        oldest_def pkey_def bigint_max_def)
  have 3: "fst (get (snd (insert_or_append (empty_cache 0) alice conv_a hello [] False)) alice conv_a False) =
     Inr []"
    unfolding 2 by (simp add: get_eq 1 stored_def sendable_examples)
  have q: "answers_next 4 (connection (empty_cache 3))"
    by (rule quiet_answers) (simp_all add: empty_cache_def)
  have st3: "stored (connection (empty_cache 3)) ''not-uuid'' conv_a = None"
    by (simp add: empty_cache_def stored_def)
  have o: "overflow (capacity (empty_cache 3))
             (cache (connection (empty_cache 3)) @
              [new_row (connection (empty_cache 3)) ''not-uuid'' conv_a hello []]) \<le> bigint_max"
    by (simp add: empty_cache_def overflow_def bigint_max_def)
  have 4: "fst (insert_or_append (empty_cache 3) ''not-uuid'' conv_a hello [] False) = Inr ()"
    by (rule insert_or_append_inserts(1) [OF q st3 sendable_examples(4) sendable_examples(2)
          sendable_examples(5) o])
  have 5: "fst (get (snd (insert_or_append (empty_cache 3) ''not-uuid'' conv_a hello [] False))
          ''not-uuid'' conv_a False) = Inl (InvalidIdentifier ''not-uuid'')"
    by (simp add: get_eq construct_key_def check_not_uuid)
  have 6: "insert_branch (empty_cache 0) alice conv_a" "insert_branch (empty_cache 3) ''not-uuid'' conv_a"
    by (rule empty_cache_insert_branch; rule sendable_examples)+
  from 1 2 3 4 5 6 show ?thesis by simp
qed

end
